theory Spec2Isabelle
  imports Main "HOL-Library.AList"
begin

section \<open>Python values, exceptions and effectful results\<close>

text \<open>
  The action receives dynamically typed data: the parameter object is a JSON text or a
  dictionary, and the values found under its keys are whatever the caller wrote there.
  \<open>pyval\<close> is the fragment of Python's value universe that JSON produces, without
  floating-point numbers (they are outside this development). A dictionary keeps its
  insertion order, so it is an association list; a Python \<open>str\<close> is a \<open>string\<close>,
  with a character beyond ASCII written as its UTF-8 bytes.
\<close>

datatype pyval =
    PyNone
  | PyBool bool
  | PyInt int
  | PyStr string
  | PyList "pyval list"
  | PyDict "(string \<times> pyval) list"

text \<open>
  The exceptions that can occur. All of them are subclasses of Python's \<open>Exception\<close>,
  the class the handlers of the source catch; \<open>HostError\<close> stands for whatever a call
  into the host framework raises.
\<close>

datatype exn =
    JSONDecodeError
  | AttributeError
  | TypeError
  | ValueError
  | OverflowError
  | OSError
  | HostError

text \<open>
  \<open>as_int v\<close> is the integer an arithmetic operator of Python reads from \<open>v\<close>
  (\<open>bool\<close> is a subclass of \<open>int\<close>); \<open>None\<close> where \<open>v + 1\<close> and
  \<open>v / 1000.0\<close> raise \<open>TypeError\<close>.
\<close>

fun as_int :: "pyval \<Rightarrow> int option" where
  "as_int (PyInt i) = Some i"
| "as_int (PyBool b) = Some (if b then 1 else 0)"
| "as_int _ = None"

subsection \<open>The host framework, as the action sees it\<close>

text \<open>
  A recognition detail carries an optional bounding box \<open>(x, y, w, h)\<close>;
  \<open>run_recognition\<close> returns a detail or \<open>None\<close>.
\<close>

record box =
  box_x :: int
  box_y :: int
  box_w :: int
  box_h :: int

datatype reco_detail = RecoDetail (box: "box option")

text \<open>
  Every call the action makes to the outside is an event. \<open>Sleep ms\<close> is a completed
  \<open>time.sleep(ms / 1000.0)\<close>; the other events are calls into the host framework,
  recorded when they are issued: \<open>post_click_key(k).wait()\<close>,
  \<open>post_screencap().wait()\<close>, the read of \<open>cached_image\<close>,
  \<open>run_recognition(node, image, pipeline_override)\<close> (the override is \<open>None\<close> for
  the empty dictionary, and the template path otherwise) and \<open>post_click(x, y).wait()\<close>.
\<close>

datatype event =
    ClickKey int
  | Screencap
  | CachedImage
  | Recognition string "pyval option"
  | Click int int
  | Sleep int

text \<open>
  The host is an arbitrary deterministic environment: \<open>raises h i\<close> says whether the
  call recorded at position \<open>i\<close> of the trace raises, \<open>reco_result h i\<close> is what the
  recognition recorded at position \<open>i\<close> returns when it does not raise, and
  \<open>sleep_max h\<close> is the longest duration, in milliseconds, that the platform's
  \<open>time.sleep\<close> accepts. \<open>trace\<close> is the list of events so far and \<open>step_log\<close>
  the numbers of the steps whose opening log line has been written.
\<close>

record host =
  raises :: "nat \<Rightarrow> bool"
  reco_result :: "nat \<Rightarrow> reco_detail option"
  sleep_max :: int
  trace :: "event list"
  step_log :: "nat list"

text \<open>
  A method returns a value or raises, and leaves the host in a new state. \<open>and_then\<close>
  runs the rest of a block after a call: an exception skips it. \<open>emit\<close> appends
  events to the trace.
\<close>

definition emit :: "event list \<Rightarrow> host \<Rightarrow> host" where
  "emit evs h = h\<lparr>trace := trace h @ evs\<rparr>"

type_synonym 'a outcome = "(exn + 'a) \<times> host"

definition and_then :: "'a outcome \<Rightarrow> ('a \<Rightarrow> host \<Rightarrow> 'b outcome) \<Rightarrow> 'b outcome" where
  "and_then m f = (case m of (Inl e, h) \<Rightarrow> (Inl e, h) | (Inr v, h) \<Rightarrow> f v h)"

definition host_call :: "event \<Rightarrow> host \<Rightarrow> unit outcome" where
  "host_call ev h =
     (if raises h (length (trace h)) then Inl HostError else Inr (), emit [ev] h)"

definition post_click_key :: "int \<Rightarrow> host \<Rightarrow> unit outcome" where
  "post_click_key k h = host_call (ClickKey k) h"

definition post_screencap :: "host \<Rightarrow> unit outcome" where
  "post_screencap h = host_call Screencap h"

definition cached_image :: "host \<Rightarrow> unit outcome" where
  "cached_image h = host_call CachedImage h"

definition post_click :: "int \<Rightarrow> int \<Rightarrow> host \<Rightarrow> unit outcome" where
  "post_click cx cy h = host_call (Click cx cy) h"

definition run_recognition :: "string \<Rightarrow> pyval option \<Rightarrow> host \<Rightarrow> (reco_detail option) outcome" where
  "run_recognition node ov h =
     (if raises h (length (trace h)) then Inl HostError
      else Inr (reco_result h (length (trace h))),
      emit [Recognition node ov] h)"

text \<open>
  \<open>time.sleep\<close> raises \<open>ValueError\<close> on a negative duration and \<open>OverflowError\<close> on
  one that is too long; \<open>sleep_ms v\<close> is \<open>time.sleep(v / 1000.0)\<close>, where the
  division raises \<open>TypeError\<close> unless \<open>v\<close> is a number.
\<close>

definition time_sleep :: "int \<Rightarrow> host \<Rightarrow> unit outcome" where
  "time_sleep ms h =
     (if ms < 0 then (Inl ValueError, h)
      else if sleep_max h < ms then (Inl OverflowError, h)
      else (Inr (), emit [Sleep ms] h))"

definition sleep_ms :: "pyval \<Rightarrow> host \<Rightarrow> unit outcome" where
  "sleep_ms v h = (case as_int v of None \<Rightarrow> (Inl TypeError, h) | Some ms \<Rightarrow> time_sleep ms h)"

section \<open>agent/common.py: ResetCharacterPosition\<close>

subsection \<open>Step 1\<close>

text \<open>
  The methods keep their names, without the leading underscore that an Isabelle name cannot
  have. Each method opens with a log line that names its step; \<open>log_step\<close> records
  it. \<open>step1_press_esc\<close> is \<open>_step1_press_esc\<close> (lines 98 to 119): the key press,
  the sleep and the screenshot stand in one \<open>try\<close> block, whose handler returns
  \<open>False\<close>.
\<close>

definition log_step :: "nat \<Rightarrow> host \<Rightarrow> host" where
  "log_step k h = h\<lparr>step_log := step_log h @ [k]\<rparr>"

definition step1_press_esc :: "host \<Rightarrow> pyval \<Rightarrow> bool outcome" where
  "step1_press_esc h wait_delay =
     (case and_then (post_click_key 27 (log_step 1 h)) (\<lambda>_ h.
           and_then (sleep_ms wait_delay h) (\<lambda>_ h.
           and_then (post_screencap h) (\<lambda>_ h. (Inr True, h)))) of
        (Inl e, h') \<Rightarrow> (Inr False, h')
      | (Inr ok, h') \<Rightarrow> (Inr ok, h'))"

subsection \<open>Steps 2 to 5\<close>

text \<open>
  The four retrying methods have the same body, up to the recognition node, the pipeline
  override (step 3 only) and a closing sleep of 0.1 s (step 5 only); the body is written
  once, with these as parameters.

  \<open>usable_box\<close> is the negation of the test
  \<open>not reco_result or not reco_result.box or reco_result.box.w == 0\<close>.
\<close>

definition usable_box :: "reco_detail option \<Rightarrow> box option" where
  "usable_box reco =
     (case reco of None \<Rightarrow> None
      | Some d \<Rightarrow> (case box d of None \<Rightarrow> None
          | Some b \<Rightarrow> if box_w b = 0 then None else Some b))"

datatype flow = Return bool | Continue

text \<open>
  The \<open>try\<close> block of one pass of the loop (lines 126 to 166 of
  \<open>_step2_click_settings\<close>, and the same lines of the three other methods):
  \<open>Return\<close> is a \<open>return\<close> of the method, \<open>Continue\<close> the \<open>continue\<close> of
  the loop, and an exception is handed to the handler.
\<close>

definition attempt_body ::
  "string \<Rightarrow> pyval option \<Rightarrow> bool \<Rightarrow> pyval \<Rightarrow> int \<Rightarrow> pyval \<Rightarrow> int \<Rightarrow> host \<Rightarrow> flow outcome" where
  "attempt_body node ov pause wait_delay retry_times retry_interval attempt h =
     and_then (post_screencap h) (\<lambda>_ h.
     and_then (cached_image h) (\<lambda>_ h.
     and_then (run_recognition node ov h) (\<lambda>reco h.
       case usable_box reco of
         None \<Rightarrow>
           if attempt < retry_times
           then and_then (sleep_ms retry_interval h) (\<lambda>_ h. (Inr Continue, h))
           else (Inr (Return False), h)
       | Some b \<Rightarrow>
           and_then (post_click (box_x b + box_w b div 2) (box_y b + box_h b div 2) h) (\<lambda>_ h.
           and_then (sleep_ms wait_delay h) (\<lambda>_ h.
           and_then (post_screencap h) (\<lambda>_ h.
           if pause then and_then (time_sleep 100 h) (\<lambda>_ h. (Inr (Return True), h))
           else (Inr (Return True), h)))))))"

text \<open>
  The \<open>for\<close> loop over the attempts, with the \<open>except Exception\<close> handler of each
  pass (lines 168 to 173) and the \<open>return False\<close> after the loop (line 175): the
  handler sleeps the retry interval unless the attempt is the last, and an exception raised
  by this sleep leaves the method.
\<close>

fun for_attempts ::
  "string \<Rightarrow> pyval option \<Rightarrow> bool \<Rightarrow> pyval \<Rightarrow> int \<Rightarrow> pyval \<Rightarrow> int list \<Rightarrow> host \<Rightarrow> bool outcome" where
  "for_attempts node ov pause wait_delay retry_times retry_interval [] h = (Inr False, h)"
| "for_attempts node ov pause wait_delay retry_times retry_interval (attempt # rest) h =
     (case attempt_body node ov pause wait_delay retry_times retry_interval attempt h of
        (Inr (Return b), h') \<Rightarrow> (Inr b, h')
      | (Inr Continue, h') \<Rightarrow>
          for_attempts node ov pause wait_delay retry_times retry_interval rest h'
      | (Inl e, h') \<Rightarrow>
          if attempt < retry_times
          then (case sleep_ms retry_interval h' of
                  (Inl e', h'') \<Rightarrow> (Inl e', h'')
                | (Inr _, h'') \<Rightarrow>
                    for_attempts node ov pause wait_delay retry_times retry_interval rest h'')
          else (Inr False, h'))"

text \<open>
  A retrying method: its opening log line, then the loop over
  \<open>range(1, retry_times + 1)\<close>, which raises \<open>TypeError\<close> outside every \<open>try\<close>
  when \<open>retry_times\<close> is not a number.
\<close>

definition click_with_retry ::
  "nat \<Rightarrow> string \<Rightarrow> pyval option \<Rightarrow> bool \<Rightarrow> host \<Rightarrow> pyval \<Rightarrow> pyval \<Rightarrow> pyval \<Rightarrow> bool outcome" where
  "click_with_retry k node ov pause h wait_delay retry_times retry_interval =
     (case as_int retry_times of
        None \<Rightarrow> (Inl TypeError, log_step k h)
      | Some n \<Rightarrow> for_attempts node ov pause wait_delay n retry_interval [1..n] (log_step k h))"

definition default_template :: string where
  "default_template =
     ''common/'' @ [CHR 0xE5, CHR 0x85, CHR 0xB6, CHR 0xE4, CHR 0xBB, CHR 0x96] @ ''.png''"

definition step2_click_settings :: "host \<Rightarrow> pyval \<Rightarrow> pyval \<Rightarrow> pyval \<Rightarrow> bool outcome" where
  "step2_click_settings h wait_delay retry_times retry_interval =
     click_with_retry 2 ''OCR_Settings'' None False h wait_delay retry_times retry_interval"

definition step3_click_other :: "host \<Rightarrow> pyval \<Rightarrow> pyval \<Rightarrow> pyval \<Rightarrow> pyval \<Rightarrow> bool outcome" where
  "step3_click_other h template_path wait_delay retry_times retry_interval =
     click_with_retry 3 ''Template_Other''
       (if template_path \<noteq> PyStr default_template then Some template_path else None)
       False h wait_delay retry_times retry_interval"

definition step4_click_reset_character :: "host \<Rightarrow> pyval \<Rightarrow> pyval \<Rightarrow> pyval \<Rightarrow> bool outcome" where
  "step4_click_reset_character h wait_delay retry_times retry_interval =
     click_with_retry 4 ''OCR_ResetCharacter'' None False h wait_delay retry_times retry_interval"

definition step5_click_confirm :: "host \<Rightarrow> pyval \<Rightarrow> pyval \<Rightarrow> pyval \<Rightarrow> bool outcome" where
  "step5_click_confirm h wait_delay retry_times retry_interval =
     click_with_retry 5 ''OCR_Confirm'' None True h wait_delay retry_times retry_interval"

subsection \<open>run\<close>

text \<open>
  \<open>run\<close> (lines 41 to 96) reads its parameters (\<open>load_params\<close>, lines 48 to 53, and
  \<open>get_params\<close>, lines 56 to 59, where \<open>get\<close> on a value that is not a dictionary
  raises \<open>AttributeError\<close>), chains the five steps (\<open>run_steps\<close>, lines 70 to 92) and
  turns every exception into \<open>False\<close> (lines 94 to 96). \<open>json.loads\<close> belongs to
  Python's library, not to the repository: it is a parameter \<open>loads\<close> of the model, any
  function from a text to a value or an exception.
\<close>

record params =
  template_path :: pyval
  wait_delay :: pyval
  retry_times :: pyval
  retry_interval :: pyval

definition dict_get :: "(string \<times> pyval) list \<Rightarrow> string \<Rightarrow> pyval \<Rightarrow> pyval" where
  "dict_get kvs k d = (case map_of kvs k of None \<Rightarrow> d | Some v \<Rightarrow> v)"

definition load_params :: "(string \<Rightarrow> exn + pyval) \<Rightarrow> pyval \<Rightarrow> exn + pyval" where
  "load_params loads custom_action_param =
     (case custom_action_param of
        PyStr s \<Rightarrow> loads s
      | PyDict kvs \<Rightarrow> Inr (PyDict kvs)
      | _ \<Rightarrow> Inr (PyDict []))"

definition get_params :: "pyval \<Rightarrow> exn + params" where
  "get_params p =
     (case p of
        PyDict kvs \<Rightarrow>
          Inr \<lparr>template_path = dict_get kvs ''template_path'' (PyStr default_template),
               wait_delay = dict_get kvs ''wait_delay'' (PyInt 500),
               retry_times = dict_get kvs ''retry_times'' (PyInt 10),
               retry_interval = dict_get kvs ''retry_interval'' (PyInt 500)\<rparr>
      | _ \<Rightarrow> Inl AttributeError)"

definition parse_params :: "(string \<Rightarrow> exn + pyval) \<Rightarrow> pyval \<Rightarrow> exn + params" where
  "parse_params loads custom_action_param =
     (case load_params loads custom_action_param of
        Inl e \<Rightarrow> Inl e
      | Inr p \<Rightarrow> get_params p)"

definition run_steps :: "host \<Rightarrow> params \<Rightarrow> bool outcome" where
  "run_steps h ps =
     and_then (step1_press_esc h (wait_delay ps)) (\<lambda>ok h.
     if \<not> ok then (Inr False, h) else
     and_then (step2_click_settings h (wait_delay ps) (retry_times ps) (retry_interval ps)) (\<lambda>ok h.
     if \<not> ok then (Inr False, h) else
     and_then (step3_click_other h (template_path ps) (wait_delay ps) (retry_times ps)
                 (retry_interval ps)) (\<lambda>ok h.
     if \<not> ok then (Inr False, h) else
     and_then (step4_click_reset_character h (wait_delay ps) (retry_times ps)
                 (retry_interval ps)) (\<lambda>ok h.
     if \<not> ok then (Inr False, h) else
     and_then (step5_click_confirm h (wait_delay ps) (retry_times ps) (retry_interval ps)) (\<lambda>ok h.
     if \<not> ok then (Inr False, h) else (Inr True, h))))))"

definition run :: "(string \<Rightarrow> exn + pyval) \<Rightarrow> host \<Rightarrow> pyval \<Rightarrow> bool outcome" where
  "run loads h custom_action_param =
     (case (case parse_params loads custom_action_param of
              Inl e \<Rightarrow> (Inl e, h)
            | Inr ps \<Rightarrow> run_steps h ps) of
        (Inl e, h') \<Rightarrow> (Inr False, h')
      | (Inr ok, h') \<Rightarrow> (Inr ok, h'))"

section \<open>install.py\<close>

text \<open>
  \<open>version\<close> is line 20 of the installer,
  \<open>len(sys.argv) > 1 and sys.argv[1] or "v0.0.1"\<close>: the empty string is false in
  Python, so an empty argument falls through to the default.
\<close>

definition version :: "string list \<Rightarrow> string" where
  "version argv = (if length argv > 1 \<and> argv ! 1 \<noteq> [] then argv ! 1 else ''v0.0.1'')"

text \<open>
  \<open>install_resource\<close> (lines 47 to 67) on the files the manifest passes through: the
  manifest is copied from the assets to the distribution, loaded, given its version and
  written back. A file's content is the JSON value it denotes, \<open>None\<close> for a missing
  file; an assignment to a key of a value that is not a dictionary raises \<open>TypeError\<close>.
  \<open>resources_ok\<close> says whether \<open>configure_ocr_model()\<close> (of a module outside these
  sources) and the copy of the resource directory complete; they touch no manifest. The
  command line \<open>sys.argv\<close> is an argument of the model.
\<close>

record dist =
  resources_ok :: bool
  assets_interface :: "pyval option"
  install_interface :: "pyval option"

definition install_resource :: "string list \<Rightarrow> dist \<Rightarrow> (exn + unit) \<times> dist" where
  "install_resource argv d =
     (if \<not> resources_ok d then (Inl OSError, d)
      else case assets_interface d of
        None \<Rightarrow> (Inl OSError, d)
      | Some interface \<Rightarrow>
          (let d' = d\<lparr>install_interface := Some interface\<rparr> in
           case interface of
             PyDict kvs \<Rightarrow>
               (Inr (), d'\<lparr>install_interface :=
                  Some (PyDict (AList.update ''version'' (PyStr (version argv)) kvs))\<rparr>)
           | _ \<Rightarrow> (Inl TypeError, d')))"

section \<open>Auxiliary notions for the properties and their proofs\<close>

text \<open>Recognisers of the two kinds of event the properties single out.\<close>

definition is_reco :: "event \<Rightarrow> bool" where
  "is_reco e = (case e of Recognition _ _ \<Rightarrow> True | _ \<Rightarrow> False)"

definition is_click :: "event \<Rightarrow> bool" where
  "is_click e = (case e of Click _ _ \<Rightarrow> True | _ \<Rightarrow> False)"

text \<open>
  What \<open>time.sleep(v / 1000.0)\<close> does on a host: the exception it raises, or the
  number of milliseconds slept.
\<close>

definition sleep_check :: "host \<Rightarrow> pyval \<Rightarrow> exn + int" where
  "sleep_check h v =
     (case as_int v of None \<Rightarrow> Inl TypeError
      | Some ms \<Rightarrow> if ms < 0 then Inl ValueError
                  else if sleep_max h < ms then Inl OverflowError else Inr ms)"

definition center_x :: "box \<Rightarrow> int" where
  "center_x b = box_x b + box_w b div 2"

definition center_y :: "box \<Rightarrow> int" where
  "center_y b = box_y b + box_h b div 2"

text \<open>The box that the call at position \<open>i\<close> of the trace hands to the action, if any.\<close>

definition found :: "host \<Rightarrow> nat \<Rightarrow> box option" where
  "found h i = (if raises h i then None else usable_box (reco_result h i))"

text \<open>
  \<open>clicks_ok h L evs\<close>: in the events \<open>evs\<close>, recorded from position \<open>L\<close> of the trace
  on, a click stands right after a recognition that handed over a box and goes to the
  centre of that box, and every such recognition is followed by its click.
\<close>

definition clicks_ok :: "host \<Rightarrow> nat \<Rightarrow> event list \<Rightarrow> bool" where
  "clicks_ok h L evs \<longleftrightarrow>
     (\<forall>i<length evs.
        (\<forall>cx cy. evs ! i = Click cx cy \<longrightarrow>
           0 < i \<and> (\<exists>node ov b. evs ! (i - 1) = Recognition node ov \<and> found h (L + i - 1) = Some b
                        \<and> cx = center_x b \<and> cy = center_y b))
      \<and> (\<forall>node ov b. evs ! i = Recognition node ov \<and> found h (L + i) = Some b \<longrightarrow>
           Suc i < length evs \<and> evs ! Suc i = Click (center_x b) (center_y b)))"

definition plain :: "event list \<Rightarrow> bool" where
  "plain evs \<longleftrightarrow> (\<forall>e\<in>set evs. \<not> is_reco e \<and> \<not> is_click e)"

text \<open>
  One pass of the loop, the \<open>try\<close> block together with its handler: the result with which
  the method ends, or \<open>None\<close> when the loop goes on to the next attempt.
\<close>

definition pass ::
  "string \<Rightarrow> pyval option \<Rightarrow> bool \<Rightarrow> pyval \<Rightarrow> int \<Rightarrow> pyval \<Rightarrow> int \<Rightarrow> host
     \<Rightarrow> (exn + bool) option \<times> host" where
  "pass node ov pause wd n ri a h =
     (case attempt_body node ov pause wd n ri a h of
        (Inr (Return b), h') \<Rightarrow> (Some (Inr b), h')
      | (Inr Continue, h') \<Rightarrow> (None, h')
      | (Inl e, h') \<Rightarrow>
          if a < n
          then (case sleep_ms ri h' of
                  (Inl e', h'') \<Rightarrow> (Some (Inl e'), h'')
                | (Inr _, h'') \<Rightarrow> (None, h''))
          else (Some (Inr False), h'))"

definition retrying_steps :: "host \<Rightarrow> pyval \<Rightarrow> pyval \<Rightarrow> pyval \<Rightarrow> pyval \<Rightarrow> (bool outcome) set" where
  "retrying_steps h tp wd rt ri =
     {step2_click_settings h wd rt ri, step3_click_other h tp wd rt ri,
      step4_click_reset_character h wd rt ri, step5_click_confirm h wd rt ri}"

text \<open>A host none of whose calls raises and that accepts the sleeps after a click.\<close>

definition nominal :: "host \<Rightarrow> pyval \<Rightarrow> bool \<Rightarrow> bool" where
  "nominal h wd pause \<longleftrightarrow>
     (\<forall>i. \<not> raises h i) \<and> (\<exists>w. as_int wd = Some w \<and> 0 \<le> w \<and> w \<le> sleep_max h)
     \<and> (pause \<longrightarrow> 100 \<le> sleep_max h)"

text \<open>
  One attempt of a retrying step that starts at position \<open>p\<close> of the trace calls the host
  at the positions \<open>p\<close> (screenshot), \<open>p + 1\<close> (read of the image), \<open>p + 2\<close>
  (recognition), \<open>p + 3\<close> (click) and \<open>p + 5\<close> (closing screenshot); position
  \<open>p + 4\<close> is the sleep of the wait delay, and step 5 sleeps 100 ms more at the end.

  \<open>attempt_succeeds\<close>: the attempt at \<open>p\<close> reaches its \<open>return True\<close>: none of
  its calls raises, the recognition returns a box of non-zero width, and the sleeps after
  the click are accepted.
\<close>

definition attempt_succeeds :: "host \<Rightarrow> pyval \<Rightarrow> bool \<Rightarrow> nat \<Rightarrow> bool" where
  "attempt_succeeds h wd pause p \<longleftrightarrow>
     \<not> raises h p \<and> \<not> raises h (p + 1) \<and> \<not> raises h (p + 2)
     \<and> usable_box (reco_result h (p + 2)) \<noteq> None
     \<and> \<not> raises h (p + 3)
     \<and> (case sleep_check h wd of Inl e \<Rightarrow> False | Inr w \<Rightarrow> True)
     \<and> \<not> raises h (p + 5)
     \<and> (pause \<longrightarrow> 100 \<le> sleep_max h)"

text \<open>
  \<open>attempt_trace\<close>: the events that the attempt at \<open>p\<close> records on the host
  \<open>h\<close>, up to and including its first call that raises; a sleep that is refused is not
  recorded. The retry sleep that follows a failed attempt is not part of it.
\<close>

definition attempt_trace ::
  "host \<Rightarrow> string \<Rightarrow> pyval option \<Rightarrow> bool \<Rightarrow> pyval \<Rightarrow> nat \<Rightarrow> event list" where
  "attempt_trace h node ov pause wd p =
     (if raises h p then [Screencap]
      else if raises h (p + 1) then [Screencap, CachedImage]
      else [Screencap, CachedImage, Recognition node ov] @
        (if raises h (p + 2) then []
         else case usable_box (reco_result h (p + 2)) of
           None \<Rightarrow> []
         | Some b \<Rightarrow>
             Click (box_x b + box_w b div 2) (box_y b + box_h b div 2) #
             (if raises h (p + 3) then []
              else case sleep_check h wd of
                Inl e \<Rightarrow> []
              | Inr w \<Rightarrow>
                  [Sleep w, Screencap] @
                  (if \<not> raises h (p + 5) \<and> pause \<and> 100 \<le> sleep_max h
                   then [Sleep 100] else []))))"

text \<open>
  \<open>attempt_start h ims failed j\<close>: the position of the trace at which the attempt after
  the first \<open>j\<close> attempts of \<open>failed\<close> starts, each of them followed by a retry sleep
  of \<open>ims\<close> milliseconds.
\<close>

definition attempt_start :: "host \<Rightarrow> int \<Rightarrow> event list list \<Rightarrow> nat \<Rightarrow> nat" where
  "attempt_start h ims failed j =
     length (trace h) + length (concat (map (\<lambda>b. b @ [Sleep ims]) (take j failed)))"

text \<open>
  \<open>polled\<close>: the loop from attempt \<open>a\<close> on made the attempts \<open>failed\<close>, none of
  which succeeded and each of which was followed by the retry sleep, and then either an
  attempt that succeeded, or the attempt \<open>n\<close> in vain, or it had no attempt to make.
\<close>

definition polled ::
  "string \<Rightarrow> pyval option \<Rightarrow> bool \<Rightarrow> pyval \<Rightarrow> int \<Rightarrow> int \<Rightarrow> int \<Rightarrow> host \<Rightarrow> bool outcome \<Rightarrow> bool" where
  "polled node ov pause wd ims n a h x \<longleftrightarrow>
     (\<exists>failed final.
        snd x = emit (concat (map (\<lambda>b. b @ [Sleep ims]) failed) @ final) h
      \<and> (\<forall>j<length failed.
            failed ! j = attempt_trace h node ov pause wd (attempt_start h ims failed j)
          \<and> \<not> attempt_succeeds h wd pause (attempt_start h ims failed j))
      \<and> ((fst x = Inr True \<and> a + int (length failed) \<le> n
              \<and> attempt_succeeds h wd pause (attempt_start h ims failed (length failed))
              \<and> final = attempt_trace h node ov pause wd (attempt_start h ims failed (length failed)))
         \<or> (fst x = Inr False \<and> a + int (length failed) = n
              \<and> \<not> attempt_succeeds h wd pause (attempt_start h ims failed (length failed))
              \<and> final = attempt_trace h node ov pause wd (attempt_start h ims failed (length failed)))
         \<or> (fst x = Inr False \<and> n < a \<and> failed = [] \<and> final = [])))"

subsection \<open>Three hosts to run the action on\<close>

text \<open>
  None of their calls raises. \<open>ready_host\<close> recognises every target at once,
  \<open>blind_host\<close> never recognises anything, and \<open>patient_host\<close> recognises from the
  tenth call on. The box found is 31 wide and 11 high, with its corner at (100, 40).
\<close>

definition ready_host :: host where
  "ready_host = \<lparr>raises = (\<lambda>_. False),
      reco_result = (\<lambda>_. Some (RecoDetail (Some \<lparr>box_x = 100, box_y = 40, box_w = 31, box_h = 11\<rparr>))),
      sleep_max = 86400000, trace = [], step_log = []\<rparr>"

definition blind_host :: host where
  "blind_host = \<lparr>raises = (\<lambda>_. False), reco_result = (\<lambda>_. None), sleep_max = 86400000,
                  trace = [], step_log = []\<rparr>"

definition patient_host :: host where
  "patient_host = \<lparr>raises = (\<lambda>_. False),
      reco_result = (\<lambda>i. if i < 10 then None
                          else Some (RecoDetail (Some \<lparr>box_x = 100, box_y = 40, box_w = 31, box_h = 11\<rparr>))),
      sleep_max = 86400000, trace = [], step_log = []\<rparr>"

section \<open>Basic facts about the host operations\<close>

lemma emit_simps [simp]:
  "raises (emit evs h) = raises h"
  "reco_result (emit evs h) = reco_result h"
  "sleep_max (emit evs h) = sleep_max h"
  "step_log (emit evs h) = step_log h"
  "trace (emit evs h) = trace h @ evs"
  "emit ys (emit xs h) = emit (xs @ ys) h"
  by (simp_all add: emit_def)

lemma emit_Nil [simp]: "emit [] h = h"
  by (simp add: emit_def)

lemma emit_eq [simp]: "(emit xs h = emit ys h) = (xs = ys)"
proof
  assume "emit xs h = emit ys h"
  then have "trace (emit xs h) = trace (emit ys h)" by simp
  then show "xs = ys" by simp
qed simp

lemma emit_eq_self [simp]: "(h = emit ys h) = (ys = [])" "(emit ys h = h) = (ys = [])"
  using emit_eq[of "[]" h ys] emit_eq[of ys h "[]"] by auto

lemma log_step_simps [simp]:
  "raises (log_step k h) = raises h"
  "reco_result (log_step k h) = reco_result h"
  "sleep_max (log_step k h) = sleep_max h"
  "step_log (log_step k h) = step_log h @ [k]"
  "trace (log_step k h) = trace h"
  by (simp_all add: log_step_def)

lemma is_reco_simps [simp]:
  "is_reco (Recognition node ov)" "\<not> is_reco (ClickKey k)" "\<not> is_reco Screencap"
  "\<not> is_reco CachedImage" "\<not> is_reco (Click cx cy)" "\<not> is_reco (Sleep ms)"
  by (simp_all add: is_reco_def)

lemma is_click_simps [simp]:
  "is_click (Click cx cy)" "\<not> is_click (ClickKey k)" "\<not> is_click Screencap"
  "\<not> is_click CachedImage" "\<not> is_click (Recognition node ov)" "\<not> is_click (Sleep ms)"
  by (simp_all add: is_click_def)

lemma sleep_check_emit [simp]: "sleep_check (emit evs h) v = sleep_check h v"
  by (simp add: sleep_check_def split: option.splits)

lemma sleep_check_log_step [simp]: "sleep_check (log_step k h) v = sleep_check h v"
  by (simp add: sleep_check_def split: option.splits)

lemma sleep_check_Inr:
  "sleep_check h v = Inr ms \<longleftrightarrow> as_int v = Some ms \<and> 0 \<le> ms \<and> ms \<le> sleep_max h"
  by (auto simp: sleep_check_def split: option.splits)

lemma sleep_ms_check:
  "sleep_ms v h =
     (case sleep_check h v of Inl e \<Rightarrow> (Inl e, h) | Inr ms \<Rightarrow> (Inr (), emit [Sleep ms] h))"
  by (simp add: sleep_ms_def time_sleep_def sleep_check_def split: option.splits)

lemma time_sleep_check:
  "time_sleep ms h =
     (case sleep_check h (PyInt ms) of Inl e \<Rightarrow> (Inl e, h) | Inr ms \<Rightarrow> (Inr (), emit [Sleep ms] h))"
  by (simp add: time_sleep_def sleep_check_def)

lemma host_call_if:
  "host_call ev h =
     (if raises h (length (trace h)) then (Inl HostError, emit [ev] h) else (Inr (), emit [ev] h))"
  by (simp add: host_call_def)

lemma run_recognition_if:
  "run_recognition node ov h =
     (if raises h (length (trace h)) then (Inl HostError, emit [Recognition node ov] h)
      else (Inr (reco_result h (length (trace h))), emit [Recognition node ov] h))"
  by (simp add: run_recognition_def)

lemma and_then_simps [simp]:
  "and_then (Inl e, h) f = (Inl e, h)"
  "and_then (Inr v, h) f = f v h"
  by (simp_all add: and_then_def)

lemma and_then_if:
  "and_then (if c then x else y) f = (if c then and_then x f else and_then y f)"
  by simp

lemma and_then_case_sum:
  "and_then (case s of Inl e \<Rightarrow> x e | Inr v \<Rightarrow> y v) f =
     (case s of Inl e \<Rightarrow> and_then (x e) f | Inr v \<Rightarrow> and_then (y v) f)"
  by (simp split: sum.splits)

lemmas exec = host_call_if run_recognition_if post_click_key_def post_screencap_def
  cached_image_def post_click_def sleep_ms_check time_sleep_check and_then_if and_then_case_sum

lemma usable_box_Some:
  "usable_box reco = Some b \<longleftrightarrow> reco = Some (RecoDetail (Some b)) \<and> box_w b \<noteq> 0"
  by (cases reco) (auto simp: usable_box_def reco_detail.expand split: option.splits)

lemma found_emit [simp]: "found (emit evs h) i = found h i"
  by (simp add: found_def)

lemma found_log_step [simp]: "found (log_step k h) i = found h i"
  by (simp add: found_def)

subsection \<open>Clicks and recognitions in a trace\<close>

lemma clicks_ok_emit [simp]: "clicks_ok (emit blk h) L evs = clicks_ok h L evs"
  by (simp add: clicks_ok_def)

lemma clicks_ok_log_step [simp]: "clicks_ok (log_step k h) L evs = clicks_ok h L evs"
  by (simp add: clicks_ok_def)

lemma plain_simps [simp]:
  "plain []"
  "plain (e # es) \<longleftrightarrow> \<not> is_reco e \<and> \<not> is_click e \<and> plain es"
  by (auto simp: plain_def)

lemma plain_no_reco: "plain evs \<Longrightarrow> filter is_reco evs = []"
  by (induction evs) auto

lemma clicks_ok_plain: "plain evs \<Longrightarrow> clicks_ok h L evs"
  unfolding clicks_ok_def plain_def
  by (metis is_click_simps(1) is_reco_simps(1) nth_mem)

lemma clicks_ok_append:
  assumes "clicks_ok h L xs" and "clicks_ok h (L + length xs) ys"
  shows "clicks_ok h L (xs @ ys)"
  unfolding clicks_ok_def
proof (intro allI impI)
  fix i assume i: "i < length (xs @ ys)"
  show "(\<forall>cx cy. (xs @ ys) ! i = Click cx cy \<longrightarrow>
           0 < i \<and> (\<exists>node ov b. (xs @ ys) ! (i - 1) = Recognition node ov \<and> found h (L + i - 1) = Some b
                        \<and> cx = center_x b \<and> cy = center_y b))
      \<and> (\<forall>node ov b. (xs @ ys) ! i = Recognition node ov \<and> found h (L + i) = Some b \<longrightarrow>
           Suc i < length (xs @ ys) \<and> (xs @ ys) ! Suc i = Click (center_x b) (center_y b))"
  proof (cases "i < length xs")
    case True
    with assms(1) show ?thesis
      unfolding clicks_ok_def
      by (auto simp: nth_append dest!: spec[of _ i])
  next
    case False
    define j where "j = i - length xs"
    have j: "j < length ys" "i = length xs + j" using i False by (auto simp: j_def)
    from assms(2) j(1) have
      "(\<forall>cx cy. ys ! j = Click cx cy \<longrightarrow>
           0 < j \<and> (\<exists>node ov b. ys ! (j - 1) = Recognition node ov \<and> found h (L + length xs + j - 1) = Some b
                        \<and> cx = center_x b \<and> cy = center_y b))
      \<and> (\<forall>node ov b. ys ! j = Recognition node ov \<and> found h (L + length xs + j) = Some b \<longrightarrow>
           Suc j < length ys \<and> ys ! Suc j = Click (center_x b) (center_y b))"
      unfolding clicks_ok_def by blast
    then show ?thesis
      unfolding j(2) by (auto simp: nth_append add.assoc)
  qed
qed

lemma clicks_ok_append_plain: "clicks_ok h L xs \<Longrightarrow> plain ys \<Longrightarrow> clicks_ok h L (xs @ ys)"
  by (simp add: clicks_ok_append clicks_ok_plain)

lemma clicks_ok_miss:
  assumes "found h (L + 2) = None" and "plain tail"
  shows "clicks_ok h L (Screencap # CachedImage # Recognition node ov # tail)"
proof -
  have "clicks_ok h L [Screencap, CachedImage, Recognition node ov]"
    using assms(1) by (simp add: clicks_ok_def All_less_Suc nth_Cons' eval_nat_numeral)
  from clicks_ok_append_plain[OF this assms(2)] show ?thesis by simp
qed

lemma clicks_ok_hit:
  assumes "found h (L + 2) = Some b" and "plain tail"
  shows "clicks_ok h L (Screencap # CachedImage # Recognition node ov
                          # Click (center_x b) (center_y b) # tail)"
proof -
  have "clicks_ok h L [Screencap, CachedImage, Recognition node ov, Click (center_x b) (center_y b)]"
    using assms(1) by (simp add: clicks_ok_def All_less_Suc nth_Cons' eval_nat_numeral)
  from clicks_ok_append_plain[OF this assms(2)] show ?thesis by simp
qed

section \<open>One pass of a retrying step, and the loop\<close>

text \<open>The \<open>try\<close> block, path by path.\<close>

lemma attempt_body_unfold:
  "attempt_body node ov pause wd n ri a h =
    (if raises h (length (trace h)) then (Inl HostError, emit [Screencap] h)
     else if raises h (length (trace h) + 1) then (Inl HostError, emit [Screencap, CachedImage] h)
     else if raises h (length (trace h) + 2)
       then (Inl HostError, emit [Screencap, CachedImage, Recognition node ov] h)
     else case usable_box (reco_result h (length (trace h) + 2)) of
       None \<Rightarrow>
         if a < n
         then (case sleep_check h ri of
                 Inl e \<Rightarrow> (Inl e, emit [Screencap, CachedImage, Recognition node ov] h)
               | Inr ms \<Rightarrow> (Inr Continue, emit [Screencap, CachedImage, Recognition node ov, Sleep ms] h))
         else (Inr (Return False), emit [Screencap, CachedImage, Recognition node ov] h)
     | Some b \<Rightarrow>
         if raises h (length (trace h) + 3)
         then (Inl HostError, emit [Screencap, CachedImage, Recognition node ov,
                                   Click (center_x b) (center_y b)] h)
         else case sleep_check h wd of
           Inl e \<Rightarrow> (Inl e, emit [Screencap, CachedImage, Recognition node ov,
                                  Click (center_x b) (center_y b)] h)
         | Inr w \<Rightarrow>
             if raises h (length (trace h) + 5)
             then (Inl HostError, emit [Screencap, CachedImage, Recognition node ov,
                                       Click (center_x b) (center_y b), Sleep w, Screencap] h)
             else if pause
             then (case sleep_check h (PyInt 100) of
                     Inl e \<Rightarrow> (Inl e, emit [Screencap, CachedImage, Recognition node ov,
                                   Click (center_x b) (center_y b), Sleep w, Screencap] h)
                   | Inr p \<Rightarrow> (Inr (Return True), emit [Screencap, CachedImage, Recognition node ov,
                                   Click (center_x b) (center_y b), Sleep w, Screencap, Sleep p] h))
             else (Inr (Return True), emit [Screencap, CachedImage, Recognition node ov,
                                   Click (center_x b) (center_y b), Sleep w, Screencap] h))"
  unfolding attempt_body_def
  by (simp add: exec center_x_def center_y_def eval_nat_numeral split: option.splits sum.splits)

lemma attempt_body_block:
  "\<exists>blk. snd (attempt_body node ov pause wd n ri a h) = emit blk h
     \<and> clicks_ok h (length (trace h)) blk
     \<and> length (filter is_reco blk) \<le> 1"
  by (simp add: attempt_body_unfold clicks_ok_plain clicks_ok_miss clicks_ok_hit found_def
           split: option.splits sum.splits)

lemma sleep_ms_block:
  "\<exists>blk. snd (sleep_ms v h) = emit blk h \<and> plain blk
     \<and> (\<forall>e. fst (sleep_ms v h) = Inl e \<longleftrightarrow> sleep_check h v = Inl e)"
  by (simp add: sleep_ms_check split: sum.splits)

lemma for_attempts_pass:
  "for_attempts node ov pause wd n ri (a # rest) h =
     (case pass node ov pause wd n ri a h of
        (Some r, h') \<Rightarrow> (r, h')
      | (None, h') \<Rightarrow> for_attempts node ov pause wd n ri rest h')"
  by (simp add: pass_def split: prod.splits sum.splits flow.splits)

declare for_attempts.simps(2) [simp del]

lemma pass_block:
  "\<exists>blk. snd (pass node ov pause wd n ri a h) = emit blk h
     \<and> clicks_ok h (length (trace h)) blk
     \<and> length (filter is_reco blk) \<le> 1
     \<and> (\<forall>e. fst (pass node ov pause wd n ri a h) = Some (Inl e) \<longrightarrow> sleep_check h ri = Inl e \<and> a < n)"
proof -
  obtain x h1 where att: "attempt_body node ov pause wd n ri a h = (x, h1)"
    by (cases "attempt_body node ov pause wd n ri a h")
  from attempt_body_block[of node ov pause wd n ri a h] att
  obtain blk where blk: "h1 = emit blk h" "clicks_ok h (length (trace h)) blk"
      "length (filter is_reco blk) \<le> 1"
    by auto
  show ?thesis
  proof (cases "(\<exists>e. x = Inl e) \<and> a < n")
    case False
    then have "snd (pass node ov pause wd n ri a h) = h1"
      and "\<forall>e. fst (pass node ov pause wd n ri a h) \<noteq> Some (Inl e)"
      by (auto simp: pass_def att split: sum.splits flow.splits)
    with blk show ?thesis by auto
  next
    case True
    obtain y h2 where sl: "sleep_ms ri h1 = (y, h2)" by (cases "sleep_ms ri h1")
    from sleep_ms_block[of ri h1] sl
    obtain blk2 where blk2: "h2 = emit blk2 h1" "plain blk2"
        "\<forall>e. y = Inl e \<longleftrightarrow> sleep_check h ri = Inl e"
      by (auto simp: blk(1))
    from True have p: "snd (pass node ov pause wd n ri a h) = h2"
      and q: "\<forall>e. fst (pass node ov pause wd n ri a h) = Some (Inl e) \<longrightarrow> y = Inl e"
      by (auto simp: pass_def att sl split: sum.splits)
    have "h2 = emit (blk @ blk2) h" by (simp add: blk2(1) blk(1))
    moreover have "clicks_ok h (length (trace h)) (blk @ blk2)"
      by (rule clicks_ok_append_plain[OF blk(2) blk2(2)])
    moreover have "length (filter is_reco (blk @ blk2)) \<le> 1"
      using blk(3) by (simp add: plain_no_reco[OF blk2(2)])
    ultimately show ?thesis using p q blk2(3) True by auto
  qed
qed

text \<open>
  What the loop adds to the trace, whatever the host does: clicks only at the centre of a
  box just found, at most one recognition for each attempt, and no exception but the one
  of the retry sleep.
\<close>

lemma for_attempts_block:
  "\<exists>evs. snd (for_attempts node ov pause wd n ri as h) = emit evs h
     \<and> clicks_ok h (length (trace h)) evs
     \<and> length (filter is_reco evs) \<le> length as
     \<and> (\<forall>e. fst (for_attempts node ov pause wd n ri as h) = Inl e \<longrightarrow> sleep_check h ri = Inl e)"
proof (induction as arbitrary: h)
  case Nil
  show ?case by (simp add: clicks_ok_plain)
next
  case (Cons a rest)
  obtain r h1 where p: "pass node ov pause wd n ri a h = (r, h1)"
    by (cases "pass node ov pause wd n ri a h")
  from pass_block[of node ov pause wd n ri a h] p
  obtain blk where blk: "h1 = emit blk h" "clicks_ok h (length (trace h)) blk"
      "length (filter is_reco blk) \<le> 1"
      "\<forall>e. r = Some (Inl e) \<longrightarrow> sleep_check h ri = Inl e"
    by auto
  show ?case
  proof (cases r)
    case (Some res)
    then have "for_attempts node ov pause wd n ri (a # rest) h = (res, h1)"
      by (simp add: for_attempts_pass p)
    with blk Some show ?thesis by auto
  next
    case None
    then have eq: "for_attempts node ov pause wd n ri (a # rest) h
                 = for_attempts node ov pause wd n ri rest h1"
      by (simp add: for_attempts_pass p)
    from Cons.IH[of h1] obtain evs where evs:
      "snd (for_attempts node ov pause wd n ri rest h1) = emit evs h1"
      "clicks_ok h1 (length (trace h1)) evs"
      "length (filter is_reco evs) \<le> length rest"
      "\<forall>e. fst (for_attempts node ov pause wd n ri rest h1) = Inl e \<longrightarrow> sleep_check h1 ri = Inl e"
      by blast
    have c: "clicks_ok h (length (trace h) + length blk) evs"
      using evs(2) by (simp add: blk(1))
    have "snd (for_attempts node ov pause wd n ri (a # rest) h) = emit (blk @ evs) h"
      using evs(1) by (simp add: eq blk(1))
    moreover have "clicks_ok h (length (trace h)) (blk @ evs)"
      by (rule clicks_ok_append[OF blk(2) c])
    moreover have "length (filter is_reco (blk @ evs)) \<le> length (a # rest)"
      using blk(3) evs(3) by simp
    moreover have "\<forall>e. fst (for_attempts node ov pause wd n ri (a # rest) h) = Inl e
                        \<longrightarrow> sleep_check h ri = Inl e"
      using evs(4) by (simp add: eq blk(1))
    ultimately show ?thesis by blast
  qed
qed

lemma click_with_retry_block:
  "\<exists>evs. snd (click_with_retry k node ov pause h wd rt ri) = emit evs (log_step k h)
     \<and> clicks_ok h (length (trace h)) evs
     \<and> (\<forall>n. as_int rt = Some n \<longrightarrow> length (filter is_reco evs) \<le> nat n)
     \<and> (\<forall>e. fst (click_with_retry k node ov pause h wd rt ri) = Inl e \<longrightarrow>
            as_int rt = None \<or> sleep_check h ri = Inl e)"
proof (cases "as_int rt")
  case None
  then show ?thesis by (simp add: click_with_retry_def clicks_ok_plain)
next
  case (Some n)
  from for_attempts_block[of node ov pause wd n ri "[1..n]" "log_step k h"]
  show ?thesis by (auto simp: click_with_retry_def Some)
qed

lemma retrying_steps_cases:
  assumes "x \<in> retrying_steps h tp wd rt ri"
  obtains k node ov pause where "x = click_with_retry k node ov pause h wd rt ri"
  using assms
  unfolding retrying_steps_def step2_click_settings_def step3_click_other_def
    step4_click_reset_character_def step5_click_confirm_def
  by blast

lemma retrying_steps_block:
  assumes "(r, h') \<in> retrying_steps h tp wd rt ri"
  shows "\<exists>evs k. h' = emit evs (log_step k h)
     \<and> clicks_ok h (length (trace h)) evs
     \<and> (\<forall>n. as_int rt = Some n \<longrightarrow> length (filter is_reco evs) \<le> nat n)
     \<and> (\<forall>e. r = Inl e \<longrightarrow> as_int rt = None \<or> sleep_check h ri = Inl e)"
proof -
  from assms obtain k node ov pause where x: "(r, h') = click_with_retry k node ov pause h wd rt ri"
    by (rule retrying_steps_cases)
  from click_with_retry_block[of k node ov pause h wd rt ri] x[symmetric]
  show ?thesis by auto
qed

text \<open>Without a usable recognition result the loop does not report success.\<close>

lemma never_true:
  "\<forall>i. usable_box (reco_result h i) = None \<Longrightarrow>
   fst (for_attempts node ov pause wd n ri as h) \<noteq> Inr True"
proof (induction as arbitrary: h)
  case Nil
  show ?case by simp
next
  case (Cons a rest)
  have "\<And>evs. fst (for_attempts node ov pause wd n ri rest (emit evs h)) \<noteq> Inr True"
    using Cons.prems by (intro Cons.IH) simp
  then show ?case using Cons.prems
    by (simp add: for_attempts.simps attempt_body_unfold sleep_ms_check split: sum.splits)
qed

lemma click_with_retry_never_true:
  "\<forall>i. usable_box (reco_result h i) = None \<Longrightarrow>
   fst (click_with_retry k node ov pause h wd rt ri) \<noteq> Inr True"
  by (cases "as_int rt") (simp_all add: click_with_retry_def never_true)

text \<open>The loop as a sequence of attempts, when the retry sleep is accepted.\<close>

lemma attempt_succeeds_emit [simp]:
  "attempt_succeeds (emit evs h) wd pause p = attempt_succeeds h wd pause p"
  by (simp add: attempt_succeeds_def)

lemma attempt_succeeds_log_step [simp]:
  "attempt_succeeds (log_step k h) wd pause p = attempt_succeeds h wd pause p"
  by (simp add: attempt_succeeds_def)

lemma attempt_trace_emit [simp]:
  "attempt_trace (emit evs h) node ov pause wd p = attempt_trace h node ov pause wd p"
  by (auto simp: attempt_trace_def split: option.splits)

lemma attempt_trace_log_step [simp]:
  "attempt_trace (log_step k h) node ov pause wd p = attempt_trace h node ov pause wd p"
  by (auto simp: attempt_trace_def split: option.splits)

lemma attempt_start_simps [simp]:
  "attempt_start h ims failed 0 = length (trace h)"
  "attempt_start h ims [] j = length (trace h)"
  "attempt_start (log_step k h) ims failed j = attempt_start h ims failed j"
  "attempt_start (emit (b @ [Sleep ims]) h) ims failed j = attempt_start h ims (b # failed) (Suc j)"
  by (simp_all add: attempt_start_def)

lemma attempt_start_length:
  "attempt_start h ims failed (length failed)
     = length (trace h) + length (concat (map (\<lambda>b. b @ [Sleep ims]) failed))"
  by (simp add: attempt_start_def)

lemma sleep_check_100:
  "sleep_check h (PyInt 100) = (if sleep_max h < 100 then Inl OverflowError else Inr 100)"
  by (simp add: sleep_check_def)

lemma attempt_round:
  "case attempt_body node ov pause wd n ri a h of
     (Inl e, h') \<Rightarrow>
       h' = emit (attempt_trace h node ov pause wd (length (trace h))) h
       \<and> \<not> attempt_succeeds h wd pause (length (trace h))
   | (Inr Continue, h') \<Rightarrow>
       a < n \<and> \<not> attempt_succeeds h wd pause (length (trace h))
       \<and> (\<exists>ms. sleep_check h ri = Inr ms
             \<and> h' = emit (attempt_trace h node ov pause wd (length (trace h)) @ [Sleep ms]) h)
   | (Inr (Return ok), h') \<Rightarrow>
       h' = emit (attempt_trace h node ov pause wd (length (trace h))) h
       \<and> ok = attempt_succeeds h wd pause (length (trace h))
       \<and> (\<not> ok \<longrightarrow> \<not> a < n)"
  by (simp add: attempt_body_unfold attempt_trace_def attempt_succeeds_def sleep_check_100
        center_x_def center_y_def eval_nat_numeral
        split: option.splits sum.splits)

lemma pass_round:
  assumes ri: "sleep_check h ri = Inr ims"
  shows "(pass node ov pause wd n ri a h
            = (None, emit (attempt_trace h node ov pause wd (length (trace h)) @ [Sleep ims]) h)
          \<and> a < n \<and> \<not> attempt_succeeds h wd pause (length (trace h)))
       \<or> (pass node ov pause wd n ri a h
            = (Some (Inr False), emit (attempt_trace h node ov pause wd (length (trace h))) h)
          \<and> \<not> a < n \<and> \<not> attempt_succeeds h wd pause (length (trace h)))
       \<or> (pass node ov pause wd n ri a h
            = (Some (Inr True), emit (attempt_trace h node ov pause wd (length (trace h))) h)
          \<and> attempt_succeeds h wd pause (length (trace h)))"
proof -
  let ?t = "attempt_trace h node ov pause wd (length (trace h))"
  let ?s = "attempt_succeeds h wd pause (length (trace h))"
  obtain x h1 where att: "attempt_body node ov pause wd n ri a h = (x, h1)"
    by (cases "attempt_body node ov pause wd n ri a h")
  have r: "case (x, h1) of
     (Inl e, h') \<Rightarrow> h' = emit ?t h \<and> \<not> ?s
   | (Inr Continue, h') \<Rightarrow>
       a < n \<and> \<not> ?s \<and> (\<exists>ms. sleep_check h ri = Inr ms \<and> h' = emit (?t @ [Sleep ms]) h)
   | (Inr (Return ok), h') \<Rightarrow> h' = emit ?t h \<and> ok = ?s \<and> (\<not> ok \<longrightarrow> \<not> a < n)"
    using attempt_round[where node = node and ov = ov and pause = pause and wd = wd and n = n
        and ri = ri and a = a and h = h]
    unfolding att .
  show ?thesis
  proof (cases x)
    case (Inl e)
    with r have b: "h1 = emit ?t h" "\<not> ?s" by auto
    show ?thesis
    proof (cases "a < n")
      case True
      then have "pass node ov pause wd n ri a h = (None, emit (?t @ [Sleep ims]) h)"
        by (simp add: pass_def att Inl sleep_ms_check ri b(1))
      with True b show ?thesis by blast
    next
      case False
      then have "pass node ov pause wd n ri a h = (Some (Inr False), emit ?t h)"
        by (simp add: pass_def att Inl b(1))
      with False b show ?thesis by blast
    qed
  next
    case (Inr f)
    show ?thesis
    proof (cases f)
      case Continue
      with r Inr ri have c: "a < n" "\<not> ?s" "h1 = emit (?t @ [Sleep ims]) h"
        by auto
      have "pass node ov pause wd n ri a h = (None, emit (?t @ [Sleep ims]) h)"
        by (simp add: pass_def att Inr Continue c(3))
      with c show ?thesis by blast
    next
      case (Return ok)
      with r Inr have c: "h1 = emit ?t h" "ok = ?s" "\<not> ok \<longrightarrow> \<not> a < n" by auto
      have p: "pass node ov pause wd n ri a h = (Some (Inr ok), emit ?t h)"
        by (simp add: pass_def att Inr Return c(1))
      show ?thesis
      proof (cases ok)
        case True
        with p c show ?thesis by simp
      next
        case False
        with p c show ?thesis by simp
      qed
    qed
  qed
qed

lemma polled_step:
  assumes p: "polled node ov pause wd ims n (a + 1)
                (emit (attempt_trace h node ov pause wd (length (trace h)) @ [Sleep ims]) h) x"
    and b: "\<not> attempt_succeeds h wd pause (length (trace h))"
    and an: "a < n"
  shows "polled node ov pause wd ims n a h x"
proof -
  let ?f = "\<lambda>b. b @ [Sleep ims]"
  let ?b = "attempt_trace h node ov pause wd (length (trace h))"
  let ?h1 = "emit (?b @ [Sleep ims]) h"
  from p[unfolded polled_def] obtain failed final where
    s: "snd x = emit (concat (map ?f failed) @ final) ?h1"
    and f: "\<forall>j<length failed.
            failed ! j = attempt_trace ?h1 node ov pause wd (attempt_start ?h1 ims failed j)
          \<and> \<not> attempt_succeeds ?h1 wd pause (attempt_start ?h1 ims failed j)"
    and c: "(fst x = Inr True \<and> a + 1 + int (length failed) \<le> n
              \<and> attempt_succeeds ?h1 wd pause (attempt_start ?h1 ims failed (length failed))
              \<and> final = attempt_trace ?h1 node ov pause wd (attempt_start ?h1 ims failed (length failed)))
         \<or> (fst x = Inr False \<and> a + 1 + int (length failed) = n
              \<and> \<not> attempt_succeeds ?h1 wd pause (attempt_start ?h1 ims failed (length failed))
              \<and> final = attempt_trace ?h1 node ov pause wd (attempt_start ?h1 ims failed (length failed)))
         \<or> (fst x = Inr False \<and> n < a + 1 \<and> failed = [] \<and> final = [])"
    by blast
  let ?F = "?b # failed"
  have s': "snd x = emit (concat (map ?f ?F) @ final) h"
    using s by simp
  have f': "\<forall>j<length ?F.
            ?F ! j = attempt_trace h node ov pause wd (attempt_start h ims ?F j)
          \<and> \<not> attempt_succeeds h wd pause (attempt_start h ims ?F j)"
  proof (intro allI impI)
    fix j assume j: "j < length ?F"
    show "?F ! j = attempt_trace h node ov pause wd (attempt_start h ims ?F j)
          \<and> \<not> attempt_succeeds h wd pause (attempt_start h ims ?F j)"
    proof (cases j)
      case 0
      then show ?thesis using b by simp
    next
      case (Suc i)
      with j have "i < length failed" by simp
      with f have "failed ! i = attempt_trace ?h1 node ov pause wd (attempt_start ?h1 ims failed i)
          \<and> \<not> attempt_succeeds ?h1 wd pause (attempt_start ?h1 ims failed i)"
        by blast
      then show ?thesis using Suc by simp
    qed
  qed
  from c an have c': "(fst x = Inr True \<and> a + int (length ?F) \<le> n
              \<and> attempt_succeeds h wd pause (attempt_start h ims ?F (length ?F))
              \<and> final = attempt_trace h node ov pause wd (attempt_start h ims ?F (length ?F)))
         \<or> (fst x = Inr False \<and> a + int (length ?F) = n
              \<and> \<not> attempt_succeeds h wd pause (attempt_start h ims ?F (length ?F))
              \<and> final = attempt_trace h node ov pause wd (attempt_start h ims ?F (length ?F)))"
    by auto
  show ?thesis unfolding polled_def
    using s' f' c' by blast
qed

lemma for_attempts_polled:
  assumes "sleep_check h ri = Inr ims"
  shows "polled node ov pause wd ims n a h (for_attempts node ov pause wd n ri [a..n] h)"
  using assms
proof (induction "nat (n + 1 - a)" arbitrary: a h)
  case 0
  then have "n < a" by simp
  then show ?case by (simp add: polled_def)
next
  case (Suc k)
  then have an: "a \<le> n" by simp
  then have up: "[a..n] = a # [a + 1..n]" by (simp add: upto_rec1)
  let ?b = "attempt_trace h node ov pause wd (length (trace h))"
  from pass_round[OF Suc.prems, of node ov pause wd n a]
  consider
    (retry) "pass node ov pause wd n ri a h = (None, emit (?b @ [Sleep ims]) h)" "a < n"
      "\<not> attempt_succeeds h wd pause (length (trace h))"
  | (last) "pass node ov pause wd n ri a h = (Some (Inr False), emit ?b h)" "\<not> a < n"
      "\<not> attempt_succeeds h wd pause (length (trace h))"
  | (hit) "pass node ov pause wd n ri a h = (Some (Inr True), emit ?b h)"
      "attempt_succeeds h wd pause (length (trace h))"
    by blast
  then show ?case
  proof cases
    case retry
    let ?h1 = "emit (?b @ [Sleep ims]) h"
    have eq: "for_attempts node ov pause wd n ri [a..n] h
            = for_attempts node ov pause wd n ri [a + 1..n] ?h1"
      by (simp add: up for_attempts_pass retry(1))
    have k: "k = nat (n + 1 - (a + 1))" using Suc.hyps(2) by simp
    have "polled node ov pause wd ims n (a + 1) ?h1
            (for_attempts node ov pause wd n ri [a + 1..n] ?h1)"
      using Suc.hyps(1)[OF k, of ?h1] Suc.prems by simp
    from polled_step[OF this retry(3,2)] show ?thesis by (simp add: eq)
  next
    case last
    with an have "a = n" by simp
    have "for_attempts node ov pause wd n ri [a..n] h = (Inr False, emit ?b h)"
      by (simp add: up for_attempts_pass last(1))
    then show ?thesis
      unfolding polled_def using last(3) \<open>a = n\<close>
      by (intro exI[of _ "[]"] exI[of _ ?b]) simp
  next
    case hit
    have "for_attempts node ov pause wd n ri [a..n] h = (Inr True, emit ?b h)"
      by (simp add: up for_attempts_pass hit(1))
    then show ?thesis
      unfolding polled_def using hit(2) an
      by (intro exI[of _ "[]"] exI[of _ ?b]) simp
  qed
qed

lemma click_with_retry_polled:
  assumes "as_int rt = Some n" and "sleep_check h ri = Inr ims"
  shows "polled node ov pause wd ims n 1 (log_step k h)
           (click_with_retry k node ov pause h wd rt ri)"
  using for_attempts_polled[of "log_step k h" ri ims node ov pause wd n 1] assms
  by (simp add: click_with_retry_def)

text \<open>Shape of an attempt's events.\<close>

lemma attempt_trace_shape:
  "attempt_trace h node ov pause wd p \<noteq> []
   \<and> hd (attempt_trace h node ov pause wd p) = Screencap
   \<and> length (filter is_reco (attempt_trace h node ov pause wd p)) \<le> 1"
  by (simp add: attempt_trace_def split: option.splits sum.splits)

lemma attempt_trace_hit:
  assumes "attempt_succeeds h wd pause p"
  shows "\<exists>bx w. as_int wd = Some w \<and> 0 \<le> w \<and> w \<le> sleep_max h
       \<and> usable_box (reco_result h (p + 2)) = Some bx
       \<and> attempt_trace h node ov pause wd p =
           [Screencap, CachedImage, Recognition node ov,
            Click (box_x bx + box_w bx div 2) (box_y bx + box_h bx div 2),
            Sleep w, Screencap] @ (if pause then [Sleep 100] else [])"
  using assms
  by (auto simp: attempt_succeeds_def attempt_trace_def sleep_check_def
        split: option.splits if_splits)

lemma attempt_trace_miss:
  assumes "\<not> attempt_succeeds h wd pause p" and "nominal h wd pause"
  shows "usable_box (reco_result h (p + 2)) = None
       \<and> attempt_trace h node ov pause wd p = [Screencap, CachedImage, Recognition node ov]"
  using assms
  by (auto simp: attempt_succeeds_def attempt_trace_def nominal_def sleep_check_def
        split: option.splits if_splits)

lemma click_with_retry_nonpositive:
  "as_int rt = Some n \<Longrightarrow> n \<le> 0 \<Longrightarrow>
   click_with_retry k node ov pause h wd rt ri = (Inr False, log_step k h)"
  by (simp add: click_with_retry_def)

subsection \<open>Step 1 and the chain of steps\<close>

lemma step1_unfold:
  "step1_press_esc h wd =
    (if raises h (length (trace h)) then (Inr False, emit [ClickKey 27] (log_step 1 h))
     else case sleep_check h wd of
       Inl e \<Rightarrow> (Inr False, emit [ClickKey 27] (log_step 1 h))
     | Inr w \<Rightarrow>
         if raises h (length (trace h) + 2)
         then (Inr False, emit [ClickKey 27, Sleep w, Screencap] (log_step 1 h))
         else (Inr True, emit [ClickKey 27, Sleep w, Screencap] (log_step 1 h)))"
  unfolding step1_press_esc_def
  by (simp add: exec eval_nat_numeral split: sum.splits)

lemma step1_block:
  "\<exists>evs b. step1_press_esc h wd = (Inr b, emit (ClickKey 27 # evs) (log_step 1 h)) \<and> plain evs"
  by (auto simp: step1_unfold split: sum.splits)

lemma step_log_steps:
  "step_log (snd (step1_press_esc h wd)) = step_log h @ [1]"
  "step_log (snd (step2_click_settings h wd rt ri)) = step_log h @ [2]"
  "step_log (snd (step3_click_other h tp wd rt ri)) = step_log h @ [3]"
  "step_log (snd (step4_click_reset_character h wd rt ri)) = step_log h @ [4]"
  "step_log (snd (step5_click_confirm h wd rt ri)) = step_log h @ [5]"
proof -
  from step1_block[of h wd] show "step_log (snd (step1_press_esc h wd)) = step_log h @ [1]"
    by auto
  have *: "step_log (snd (click_with_retry k node ov pause h wd rt ri)) = step_log h @ [k]"
    for k node ov pause
    using click_with_retry_block[of k node ov pause h wd rt ri] by auto
  show "step_log (snd (step2_click_settings h wd rt ri)) = step_log h @ [2]"
    "step_log (snd (step3_click_other h tp wd rt ri)) = step_log h @ [3]"
    "step_log (snd (step4_click_reset_character h wd rt ri)) = step_log h @ [4]"
    "step_log (snd (step5_click_confirm h wd rt ri)) = step_log h @ [5]"
    by (simp_all add: step2_click_settings_def step3_click_other_def
          step4_click_reset_character_def step5_click_confirm_def *)
qed

lemma and_then_gate:
  "and_then s (\<lambda>ok h. if \<not> ok then (Inr False, h) else f h) =
     (if fst s = Inr True then f (snd s)
      else (case fst s of Inl e \<Rightarrow> (Inl e, snd s) | Inr _ \<Rightarrow> (Inr False, snd s)))"
  by (cases s; cases "fst s") (auto simp: and_then_def)

lemma catch_fail:
  "(case (case fst s of Inl e \<Rightarrow> (Inl e, snd s) | Inr (_::bool) \<Rightarrow> (Inr False, snd s)) of
      (Inl e, h') \<Rightarrow> (Inr False, h') | (Inr ok, h') \<Rightarrow> (Inr ok, h')) = (Inr False, snd s)"
  by (cases "fst s") simp_all

lemma run_parsed:
  "parse_params loads cap = Inr ps \<Longrightarrow>
   run loads h cap = (case run_steps h ps of (Inl e, h') \<Rightarrow> (Inr False, h') | (Inr ok, h') \<Rightarrow> (Inr ok, h'))"
  by (simp add: run_def)

text \<open>The definitions a run on a given host is evaluated with.\<close>

lemmas eval_defs = step2_click_settings_def step3_click_other_def
  step4_click_reset_character_def step5_click_confirm_def click_with_retry_def
  for_attempts.simps attempt_body_unfold upto.simps sleep_check_def usable_box_def emit_def
  log_step_def sleep_ms_check center_x_def center_y_def step1_unfold

section \<open>The retrying steps\<close>

text \<open>
  Claim C5. In the events that a retrying step adds to the trace, a recognition that does
  not raise and returns a box \<open>(x, y, w, h)\<close> with \<open>w \<noteq> 0\<close> is followed at once
  by the click at \<open>(x + w div 2, y + h div 2)\<close>, where \<open>div\<close> on the integers
  rounds down as Python's \<open>//\<close> does.
\<close>

theorem click_at_box_center:
  assumes "(r, h') \<in> {step2_click_settings h wd rt ri, step3_click_other h tp wd rt ri,
                       step4_click_reset_character h wd rt ri, step5_click_confirm h wd rt ri}"
    and "length (trace h) \<le> i" and "i < length (trace h')"
    and "trace h' ! i = Recognition node ov"
    and "\<not> raises h i" and "reco_result h i = Some (RecoDetail (Some b))" and "box_w b \<noteq> 0"
  shows "Suc i < length (trace h')
       \<and> trace h' ! Suc i = Click (box_x b + box_w b div 2) (box_y b + box_h b div 2)"
proof -
  from assms(1) have "(r, h') \<in> retrying_steps h tp wd rt ri" by (simp add: retrying_steps_def)
  from retrying_steps_block[OF this] obtain evs k where
    h': "h' = emit evs (log_step k h)" and ok: "clicks_ok h (length (trace h)) evs"
    by blast
  define j where "j = i - length (trace h)"
  have i: "i = length (trace h) + j" using assms(2) by (simp add: j_def)
  have j: "j < length evs" using assms(3) by (simp add: h' i)
  have "evs ! j = Recognition node ov" using assms(4) by (simp add: h' i nth_append)
  moreover have "found h (length (trace h) + j) = Some b"
    using assms(5-7) by (simp add: found_def i usable_box_Some)
  ultimately have "Suc j < length evs \<and> evs ! Suc j = Click (center_x b) (center_y b)"
    using ok j unfolding clicks_ok_def by blast
  then show ?thesis
    by (simp add: h' i nth_append center_x_def center_y_def)
qed

theorem click_at_box_center_witness:
  "trace (snd (step2_click_settings ready_host (PyInt 500) (PyInt 10) (PyInt 500))) ! 3
     = Click 115 45"
proof -
  let ?h' = "ready_host\<lparr>trace := [Screencap, CachedImage, Recognition ''OCR_Settings'' None,
                                    Click 115 45, Sleep 500, Screencap], step_log := [2]\<rparr>"
  have ev: "step2_click_settings ready_host (PyInt 500) (PyInt 10) (PyInt 500) = (Inr True, ?h')"
    by (simp add: eval_defs ready_host_def)
  from click_at_box_center[of "Inr True" ?h' ready_host "PyInt 500" "PyInt 10" "PyInt 500" PyNone
      2 "''OCR_Settings''" None "\<lparr>box_x = 100, box_y = 40, box_w = 31, box_h = 11\<rparr>"]
  have "trace ?h' ! Suc 2 = Click (100 + 31 div 2) (40 + 11 div 2)"
    by (simp add: ev ready_host_def)
  then show ?thesis by (simp add: ev)
qed

text \<open>
  Claim C9. In the events that a retrying step adds to the trace, every click stands right
  after a recognition that did not raise and returned a detail with a box of width other
  than zero, and it goes to the centre of that box. Hence on a host where every
  recognition result is missing, has no box or has a box of width zero, every attempt
  fails: the step does not return \<open>True\<close> and it clicks nowhere.
\<close>

theorem no_click_without_usable_box:
  assumes "(r, h') \<in> {step2_click_settings h wd rt ri, step3_click_other h tp wd rt ri,
                       step4_click_reset_character h wd rt ri, step5_click_confirm h wd rt ri}"
  shows "(\<forall>i cx cy. length (trace h) \<le> i \<and> i < length (trace h') \<and> trace h' ! i = Click cx cy \<longrightarrow>
            length (trace h) < i
          \<and> (\<exists>node ov b. trace h' ! (i - 1) = Recognition node ov \<and> \<not> raises h (i - 1)
                \<and> reco_result h (i - 1) = Some (RecoDetail (Some b)) \<and> box_w b \<noteq> 0
                \<and> cx = box_x b + box_w b div 2 \<and> cy = box_y b + box_h b div 2))
       \<and> ((\<forall>i. usable_box (reco_result h i) = None) \<longrightarrow>
            r \<noteq> Inr True \<and> (\<forall>e \<in> set (drop (length (trace h)) (trace h')). \<not> is_click e))"
proof -
  from assms have m: "(r, h') \<in> retrying_steps h tp wd rt ri" by (simp add: retrying_steps_def)
  from retrying_steps_block[OF m] obtain evs k where
    h': "h' = emit evs (log_step k h)" and ok: "clicks_ok h (length (trace h)) evs"
    by blast
  have 1: "length (trace h) < i
          \<and> (\<exists>node ov b. trace h' ! (i - 1) = Recognition node ov \<and> \<not> raises h (i - 1)
                \<and> reco_result h (i - 1) = Some (RecoDetail (Some b)) \<and> box_w b \<noteq> 0
                \<and> cx = box_x b + box_w b div 2 \<and> cy = box_y b + box_h b div 2)"
    if a: "length (trace h) \<le> i" "i < length (trace h')" "trace h' ! i = Click cx cy" for i cx cy
  proof -
    define j where "j = i - length (trace h)"
    have i: "i = length (trace h) + j" using a(1) by (simp add: j_def)
    have j: "j < length evs" using a(2) by (simp add: h' i)
    have "evs ! j = Click cx cy" using a(3) by (simp add: h' i nth_append)
    with ok j obtain node ov b where b: "0 < j" "evs ! (j - 1) = Recognition node ov"
      "found h (length (trace h) + j - 1) = Some b" "cx = center_x b" "cy = center_y b"
      unfolding clicks_ok_def by blast
    have i1: "i - 1 = length (trace h) + (j - 1)" using b(1) by (simp add: i)
    from b(1,3) have "\<not> raises h (i - 1)" "usable_box (reco_result h (i - 1)) = Some b"
      by (auto simp: found_def i split: if_splits)
    moreover have "trace h' ! (i - 1) = Recognition node ov"
      using b(2) unfolding i1 by (simp add: h' nth_append)
    ultimately show ?thesis
      using b(1,4,5) by (auto simp: i usable_box_Some center_x_def center_y_def)
  qed
  have 2: "r \<noteq> Inr True \<and> (\<forall>e \<in> set (drop (length (trace h)) (trace h')). \<not> is_click e)"
    if n: "\<forall>i. usable_box (reco_result h i) = None"
  proof
    from m obtain k' node ov pause where "(r, h') = click_with_retry k' node ov pause h wd rt ri"
      by (rule retrying_steps_cases)
    with click_with_retry_never_true[OF n, of k' node ov pause wd rt ri]
    show "r \<noteq> Inr True" by (metis fst_conv)
    show "\<forall>e \<in> set (drop (length (trace h)) (trace h')). \<not> is_click e"
    proof
      fix e assume "e \<in> set (drop (length (trace h)) (trace h'))"
      then have "e \<in> set evs" by (simp add: h')
      then obtain j where j: "j < length evs" "evs ! j = e" by (auto simp: in_set_conv_nth)
      show "\<not> is_click e"
      proof
        assume "is_click e"
        then obtain cx cy where "e = Click cx cy" by (cases e) (simp_all add: is_click_def)
        with j ok obtain b where "found h (length (trace h) + j - 1) = Some b"
          unfolding clicks_ok_def by blast
        with n show False by (simp add: found_def split: if_splits)
      qed
    qed
  qed
  from 1 2 show ?thesis by blast
qed

theorem no_click_without_usable_box_witness:
  "\<exists>node ov b.
     trace (snd (step5_click_confirm ready_host (PyInt 500) (PyInt 10) (PyInt 500))) ! 2
       = Recognition node ov
   \<and> reco_result ready_host 2 = Some (RecoDetail (Some b)) \<and> box_w b \<noteq> 0
   \<and> trace (snd (step5_click_confirm ready_host (PyInt 500) (PyInt 10) (PyInt 500))) ! 3
       = Click (box_x b + box_w b div 2) (box_y b + box_h b div 2)"
proof -
  let ?h' = "ready_host\<lparr>trace := [Screencap, CachedImage, Recognition ''OCR_Confirm'' None,
                                    Click 115 45, Sleep 500, Screencap, Sleep 100], step_log := [5]\<rparr>"
  have ev: "step5_click_confirm ready_host (PyInt 500) (PyInt 10) (PyInt 500) = (Inr True, ?h')"
    by (simp add: eval_defs ready_host_def)
  have m: "(Inr True, ?h') \<in> {step2_click_settings ready_host (PyInt 500) (PyInt 10) (PyInt 500),
       step3_click_other ready_host PyNone (PyInt 500) (PyInt 10) (PyInt 500),
       step4_click_reset_character ready_host (PyInt 500) (PyInt 10) (PyInt 500),
       step5_click_confirm ready_host (PyInt 500) (PyInt 10) (PyInt 500)}"
    by (simp add: ev)
  have t: "trace ready_host = []" by (simp add: ready_host_def)
  from no_click_without_usable_box[OF m]
  have "length (trace ready_host) \<le> 3 \<and> 3 < length (trace ?h') \<and> trace ?h' ! 3 = Click 115 45 \<longrightarrow>
     (\<exists>node ov b. trace ?h' ! (3 - 1) = Recognition node ov \<and> \<not> raises ready_host (3 - 1)
             \<and> reco_result ready_host (3 - 1) = Some (RecoDetail (Some b)) \<and> box_w b \<noteq> 0
             \<and> 115 = box_x b + box_w b div 2 \<and> 45 = box_y b + box_h b div 2)"
    by blast
  then show ?thesis by (simp add: ev t)
qed

text \<open>
  Claim C6. The code departs from the claim when the retry interval is not a duration
  that \<open>time.sleep\<close> accepts. With three retries and an interval of -500 ms on a host
  that recognises nothing, the first attempt of step 5 fails, the retry sleep raises
  \<open>ValueError\<close> inside the \<open>try\<close> block, and the handler (lines 339 to 344) repeats
  the same sleep unguarded: step 5 makes one recognition attempt and then raises. It does
  not return \<open>False\<close>, and the retry count is not exhausted. With an interval of 500 ms
  the same call makes its three attempts, sleeps between them and returns \<open>False\<close>.
\<close>

theorem retry_stops_on_bad_interval:
  "step5_click_confirm blind_host (PyInt 500) (PyInt 3) (PyInt (- 500))
     = (Inl ValueError,
        blind_host\<lparr>trace := [Screencap, CachedImage, Recognition ''OCR_Confirm'' None],
                   step_log := [5]\<rparr>)
   \<and> step5_click_confirm blind_host (PyInt 500) (PyInt 3) (PyInt 500)
     = (Inr False,
        blind_host\<lparr>trace := [Screencap, CachedImage, Recognition ''OCR_Confirm'' None, Sleep 500,
                             Screencap, CachedImage, Recognition ''OCR_Confirm'' None, Sleep 500,
                             Screencap, CachedImage, Recognition ''OCR_Confirm'' None],
                   step_log := [5]\<rparr>)"
  by (simp add: eval_defs blind_host_def)

text \<open>
  Claim C2 fails as stated, in two ways. Step 1 does not poll: on a host that never
  recognises anything it returns \<open>True\<close> after one key press, one sleep and one
  screenshot, with no recognition call. And a retrying step does not sleep between failed
  attempts when the retry interval is not a duration that \<open>time.sleep\<close> accepts: with
  an interval of -1 ms, step 3 stops after its first failed attempt, by an exception,
  with two of its three attempts left.
\<close>

theorem polling_is_not_universal:
  "fst (step1_press_esc blind_host (PyInt 500)) = Inr True
   \<and> trace (snd (step1_press_esc blind_host (PyInt 500))) = [ClickKey 27, Sleep 500, Screencap]
   \<and> step3_click_other blind_host (PyStr default_template) (PyInt 500) (PyInt 3) (PyInt (- 1))
       = (Inl ValueError,
          blind_host\<lparr>trace := [Screencap, CachedImage, Recognition ''Template_Other'' None],
                     step_log := [3]\<rparr>)"
  by (simp add: eval_defs blind_host_def)

text \<open>
  Claim C2, amended to steps 2 to 5, with an integer retry count \<open>n\<close> and a retry
  interval that is an integer number \<open>ims\<close> of milliseconds that \<open>time.sleep\<close>
  accepts; what a step does with another retry interval is left open here. On every
  host, the events of a retrying step are those of a list \<open>failed\<close> of attempts, each
  followed by a sleep of the retry interval, and of one more attempt \<open>final\<close>. Each
  attempt is the one the host determines at the position where it starts
  (\<open>attempt_trace\<close>), and none of the attempts of \<open>failed\<close> succeeds. The step ends in
  one of three ways: with \<open>True\<close>, after fewer than \<open>n\<close> failures, at an attempt that
  succeeds, which is therefore the first one that does: it recognises a box, clicks, sleeps
  the wait delay and refreshes the screenshot; or with \<open>False\<close> at attempt \<open>n\<close>,
  which does not succeed either and is followed by no sleep; or at once with \<open>False\<close>,
  when \<open>n \<le> 0\<close>. Every attempt starts with a screenshot and calls the recognition at
  most once. When no call of the host raises and the sleeps after a click are accepted, an
  attempt that fails is exactly a screenshot, a read of the image and a recognition whose
  result is not usable.

  Step 1 makes no recognition call and does not retry. It presses ESC once; unless that
  call raises or the wait delay is not a duration that \<open>time.sleep\<close> accepts, it then
  sleeps the wait delay and takes one screenshot. It returns \<open>True\<close> when the three
  operations complete and \<open>False\<close> otherwise.
\<close>

theorem steps_poll_with_retry:
  assumes "(x, node, ov, pause) \<in>
      {(step2_click_settings h wd rt ri, ''OCR_Settings'', None, False),
       (step3_click_other h tp wd rt ri, ''Template_Other'',
          if tp \<noteq> PyStr default_template then Some tp else None, False),
       (step4_click_reset_character h wd rt ri, ''OCR_ResetCharacter'', None, False),
       (step5_click_confirm h wd rt ri, ''OCR_Confirm'', None, True)}"
    and "as_int rt = Some n"
    and "as_int ri = Some ims" and "0 \<le> ims" and "ims \<le> sleep_max h"
  shows "(\<exists>failed final.
      trace (snd x) = trace h @ concat (map (\<lambda>b. b @ [Sleep ims]) failed) @ final
    \<and> (\<forall>j<length failed.
          failed ! j = attempt_trace h node ov pause wd (attempt_start h ims failed j)
        \<and> \<not> attempt_succeeds h wd pause (attempt_start h ims failed j))
    \<and> ((fst x = Inr True \<and> int (length failed) < n
          \<and> attempt_succeeds h wd pause (attempt_start h ims failed (length failed))
          \<and> final = attempt_trace h node ov pause wd (attempt_start h ims failed (length failed))
          \<and> (\<exists>bx w. as_int wd = Some w
                \<and> usable_box (reco_result h
                     (length (trace h) + length (concat (map (\<lambda>b. b @ [Sleep ims]) failed)) + 2))
                   = Some bx
                \<and> final = [Screencap, CachedImage, Recognition node ov,
                            Click (box_x bx + box_w bx div 2) (box_y bx + box_h bx div 2),
                            Sleep w, Screencap] @ (if pause then [Sleep 100] else [])))
       \<or> (fst x = Inr False \<and> int (length failed) + 1 = n
          \<and> \<not> attempt_succeeds h wd pause (attempt_start h ims failed (length failed))
          \<and> final = attempt_trace h node ov pause wd (attempt_start h ims failed (length failed))
          \<and> final \<noteq> [] \<and> hd final = Screencap \<and> length (filter is_reco final) \<le> 1)
       \<or> (fst x = Inr False \<and> n \<le> 0 \<and> failed = [] \<and> final = []))
    \<and> (\<forall>b\<in>set failed. b \<noteq> [] \<and> hd b = Screencap \<and> length (filter is_reco b) \<le> 1)
    \<and> ((\<forall>i. \<not> raises h i) \<and> (\<exists>w. as_int wd = Some w \<and> 0 \<le> w \<and> w \<le> sleep_max h)
          \<and> (pause \<longrightarrow> 100 \<le> sleep_max h) \<longrightarrow>
        (\<forall>j<length failed.
            failed ! j = [Screencap, CachedImage, Recognition node ov]
          \<and> usable_box (reco_result h (attempt_start h ims failed j + 2)) = None)
        \<and> (fst x = Inr False \<and> 0 < n \<longrightarrow>
             final = [Screencap, CachedImage, Recognition node ov]
           \<and> usable_box (reco_result h (attempt_start h ims failed (length failed) + 2)) = None)))
   \<and> trace (snd (step1_press_esc h wd)) =
       trace h @ (if raises h (length (trace h)) then [ClickKey 27]
                  else case sleep_check h wd of
                         Inl e \<Rightarrow> [ClickKey 27]
                       | Inr w \<Rightarrow> [ClickKey 27, Sleep w, Screencap])
   \<and> fst (step1_press_esc h wd) =
       Inr (\<not> raises h (length (trace h))
            \<and> (case sleep_check h wd of Inl e \<Rightarrow> False | Inr w \<Rightarrow> True)
            \<and> \<not> raises h (length (trace h) + 2))"
proof -
  from assms(1) obtain k where x: "x = click_with_retry k node ov pause h wd rt ri"
    unfolding step2_click_settings_def step3_click_other_def
      step4_click_reset_character_def step5_click_confirm_def
    by auto
  have ri: "sleep_check h ri = Inr ims"
    using assms(3-5) by (simp add: sleep_check_Inr)
  let ?f = "\<lambda>b. b @ [Sleep ims]"
  have "polled node ov pause wd ims n 1 (log_step k h) x"
    unfolding x by (rule click_with_retry_polled[OF assms(2) ri])
  then obtain failed final where
    s: "snd x = emit (concat (map ?f failed) @ final) (log_step k h)"
    and f0: "\<forall>j<length failed.
            failed ! j = attempt_trace (log_step k h) node ov pause wd
                           (attempt_start (log_step k h) ims failed j)
          \<and> \<not> attempt_succeeds (log_step k h) wd pause (attempt_start (log_step k h) ims failed j)"
    and c0: "(fst x = Inr True \<and> 1 + int (length failed) \<le> n
              \<and> attempt_succeeds (log_step k h) wd pause
                   (attempt_start (log_step k h) ims failed (length failed))
              \<and> final = attempt_trace (log_step k h) node ov pause wd
                           (attempt_start (log_step k h) ims failed (length failed)))
         \<or> (fst x = Inr False \<and> 1 + int (length failed) = n
              \<and> \<not> attempt_succeeds (log_step k h) wd pause
                     (attempt_start (log_step k h) ims failed (length failed))
              \<and> final = attempt_trace (log_step k h) node ov pause wd
                           (attempt_start (log_step k h) ims failed (length failed)))
         \<or> (fst x = Inr False \<and> n < 1 \<and> failed = [] \<and> final = [])"
    unfolding polled_def by blast
  let ?p = "attempt_start h ims failed (length failed)"
  have f: "\<forall>j<length failed.
          failed ! j = attempt_trace h node ov pause wd (attempt_start h ims failed j)
        \<and> \<not> attempt_succeeds h wd pause (attempt_start h ims failed j)"
    using f0 by simp
  from c0 have c: "(fst x = Inr True \<and> int (length failed) < n
              \<and> attempt_succeeds h wd pause ?p \<and> final = attempt_trace h node ov pause wd ?p)
         \<or> (fst x = Inr False \<and> int (length failed) + 1 = n
              \<and> \<not> attempt_succeeds h wd pause ?p \<and> final = attempt_trace h node ov pause wd ?p)
         \<or> (fst x = Inr False \<and> n \<le> 0 \<and> failed = [] \<and> final = [])"
    by auto
  have 1: "trace (snd x) = trace h @ concat (map ?f failed) @ final"
    by (simp add: s)
  have hit: "\<exists>bx w. as_int wd = Some w
                \<and> usable_box (reco_result h
                     (length (trace h) + length (concat (map ?f failed)) + 2)) = Some bx
                \<and> final = [Screencap, CachedImage, Recognition node ov,
                            Click (box_x bx + box_w bx div 2) (box_y bx + box_h bx div 2),
                            Sleep w, Screencap] @ (if pause then [Sleep 100] else [])"
    if "attempt_succeeds h wd pause ?p" "final = attempt_trace h node ov pause wd ?p"
    using attempt_trace_hit[OF that(1), of node ov] that(2)
    unfolding attempt_start_length by auto
  have shape: "final \<noteq> [] \<and> hd final = Screencap \<and> length (filter is_reco final) \<le> 1"
    if "final = attempt_trace h node ov pause wd ?p"
    unfolding that by (rule attempt_trace_shape)
  have 3: "(fst x = Inr True \<and> int (length failed) < n
          \<and> attempt_succeeds h wd pause ?p
          \<and> final = attempt_trace h node ov pause wd ?p
          \<and> (\<exists>bx w. as_int wd = Some w
                \<and> usable_box (reco_result h
                     (length (trace h) + length (concat (map ?f failed)) + 2)) = Some bx
                \<and> final = [Screencap, CachedImage, Recognition node ov,
                            Click (box_x bx + box_w bx div 2) (box_y bx + box_h bx div 2),
                            Sleep w, Screencap] @ (if pause then [Sleep 100] else [])))
       \<or> (fst x = Inr False \<and> int (length failed) + 1 = n
          \<and> \<not> attempt_succeeds h wd pause ?p
          \<and> final = attempt_trace h node ov pause wd ?p
          \<and> final \<noteq> [] \<and> hd final = Screencap \<and> length (filter is_reco final) \<le> 1)
       \<or> (fst x = Inr False \<and> n \<le> 0 \<and> failed = [] \<and> final = [])"
    using c hit shape by blast
  have 2: "\<forall>b\<in>set failed. b \<noteq> [] \<and> hd b = Screencap \<and> length (filter is_reco b) \<le> 1"
  proof
    fix b assume "b \<in> set failed"
    then obtain j where "j < length failed" "b = failed ! j"
      by (auto simp: in_set_conv_nth)
    with f have "b = attempt_trace h node ov pause wd (attempt_start h ims failed j)" by simp
    then show "b \<noteq> [] \<and> hd b = Screencap \<and> length (filter is_reco b) \<le> 1"
      using attempt_trace_shape by simp
  qed
  have 4: "(\<forall>j<length failed.
            failed ! j = [Screencap, CachedImage, Recognition node ov]
          \<and> usable_box (reco_result h (attempt_start h ims failed j + 2)) = None)
        \<and> (fst x = Inr False \<and> 0 < n \<longrightarrow>
             final = [Screencap, CachedImage, Recognition node ov]
           \<and> usable_box (reco_result h (?p + 2)) = None)"
    if "(\<forall>i. \<not> raises h i) \<and> (\<exists>w. as_int wd = Some w \<and> 0 \<le> w \<and> w \<le> sleep_max h)
          \<and> (pause \<longrightarrow> 100 \<le> sleep_max h)"
  proof -
    from that have nom: "nominal h wd pause" by (simp add: nominal_def)
    have a: "\<forall>j<length failed.
            failed ! j = [Screencap, CachedImage, Recognition node ov]
          \<and> usable_box (reco_result h (attempt_start h ims failed j + 2)) = None"
      using f attempt_trace_miss[OF _ nom, of _ node ov] by simp
    have b: "final = [Screencap, CachedImage, Recognition node ov]
           \<and> usable_box (reco_result h (?p + 2)) = None"
      if "fst x = Inr False" "0 < n"
    proof -
      from c that have "\<not> attempt_succeeds h wd pause ?p"
        "final = attempt_trace h node ov pause wd ?p" by auto
      with attempt_trace_miss[OF _ nom, of ?p node ov] show ?thesis by simp
    qed
    from a b show ?thesis by blast
  qed
  have 5: "trace (snd (step1_press_esc h wd)) =
       trace h @ (if raises h (length (trace h)) then [ClickKey 27]
                  else case sleep_check h wd of
                         Inl e \<Rightarrow> [ClickKey 27]
                       | Inr w \<Rightarrow> [ClickKey 27, Sleep w, Screencap])"
    by (simp add: step1_unfold split: sum.splits)
  have 6: "fst (step1_press_esc h wd) =
       Inr (\<not> raises h (length (trace h))
            \<and> (case sleep_check h wd of Inl e \<Rightarrow> False | Inr w \<Rightarrow> True)
            \<and> \<not> raises h (length (trace h) + 2))"
    by (simp add: step1_unfold split: sum.splits)
  from 1 f 3 2 4 have "\<exists>failed final.
      trace (snd x) = trace h @ concat (map (\<lambda>b. b @ [Sleep ims]) failed) @ final
    \<and> (\<forall>j<length failed.
          failed ! j = attempt_trace h node ov pause wd (attempt_start h ims failed j)
        \<and> \<not> attempt_succeeds h wd pause (attempt_start h ims failed j))
    \<and> ((fst x = Inr True \<and> int (length failed) < n
          \<and> attempt_succeeds h wd pause (attempt_start h ims failed (length failed))
          \<and> final = attempt_trace h node ov pause wd (attempt_start h ims failed (length failed))
          \<and> (\<exists>bx w. as_int wd = Some w
                \<and> usable_box (reco_result h
                     (length (trace h) + length (concat (map (\<lambda>b. b @ [Sleep ims]) failed)) + 2))
                   = Some bx
                \<and> final = [Screencap, CachedImage, Recognition node ov,
                            Click (box_x bx + box_w bx div 2) (box_y bx + box_h bx div 2),
                            Sleep w, Screencap] @ (if pause then [Sleep 100] else [])))
       \<or> (fst x = Inr False \<and> int (length failed) + 1 = n
          \<and> \<not> attempt_succeeds h wd pause (attempt_start h ims failed (length failed))
          \<and> final = attempt_trace h node ov pause wd (attempt_start h ims failed (length failed))
          \<and> final \<noteq> [] \<and> hd final = Screencap \<and> length (filter is_reco final) \<le> 1)
       \<or> (fst x = Inr False \<and> n \<le> 0 \<and> failed = [] \<and> final = []))
    \<and> (\<forall>b\<in>set failed. b \<noteq> [] \<and> hd b = Screencap \<and> length (filter is_reco b) \<le> 1)
    \<and> ((\<forall>i. \<not> raises h i) \<and> (\<exists>w. as_int wd = Some w \<and> 0 \<le> w \<and> w \<le> sleep_max h)
          \<and> (pause \<longrightarrow> 100 \<le> sleep_max h) \<longrightarrow>
        (\<forall>j<length failed.
            failed ! j = [Screencap, CachedImage, Recognition node ov]
          \<and> usable_box (reco_result h (attempt_start h ims failed j + 2)) = None)
        \<and> (fst x = Inr False \<and> 0 < n \<longrightarrow>
             final = [Screencap, CachedImage, Recognition node ov]
           \<and> usable_box (reco_result h (attempt_start h ims failed (length failed) + 2)) = None))"
    by blast
  with 5 6 show ?thesis by blast
qed

theorem steps_poll_with_retry_witness:
  "(\<exists>failed final.
      trace (snd (step2_click_settings patient_host (PyInt 500) (PyInt 10) (PyInt 250)))
        = concat (map (\<lambda>b. b @ [Sleep 250]) failed) @ final
    \<and> (\<forall>b\<in>set failed. b = [Screencap, CachedImage, Recognition ''OCR_Settings'' None])
    \<and> int (length failed) < 10)
   \<and> step2_click_settings patient_host (PyInt 500) (PyInt 10) (PyInt 250) =
     (Inr True,
      patient_host\<lparr>trace :=
         [Screencap, CachedImage, Recognition ''OCR_Settings'' None, Sleep 250,
          Screencap, CachedImage, Recognition ''OCR_Settings'' None, Sleep 250,
          Screencap, CachedImage, Recognition ''OCR_Settings'' None, Click 115 45, Sleep 500,
          Screencap], step_log := [2]\<rparr>)"
proof -
  let ?x = "step2_click_settings patient_host (PyInt 500) (PyInt 10) (PyInt 250)"
  let ?miss = "[Screencap, CachedImage, Recognition ''OCR_Settings'' None]"
  have ev: "?x =
     (Inr True,
      patient_host\<lparr>trace :=
         [Screencap, CachedImage, Recognition ''OCR_Settings'' None, Sleep 250,
          Screencap, CachedImage, Recognition ''OCR_Settings'' None, Sleep 250,
          Screencap, CachedImage, Recognition ''OCR_Settings'' None, Click 115 45, Sleep 500,
          Screencap], step_log := [2]\<rparr>)"
    by (simp add: eval_defs patient_host_def)
  have m: "(?x, ''OCR_Settings'', None, False) \<in>
      {(step2_click_settings patient_host (PyInt 500) (PyInt 10) (PyInt 250), ''OCR_Settings'', None, False),
       (step3_click_other patient_host PyNone (PyInt 500) (PyInt 10) (PyInt 250), ''Template_Other'',
          if PyNone \<noteq> PyStr default_template then Some PyNone else None, False),
       (step4_click_reset_character patient_host (PyInt 500) (PyInt 10) (PyInt 250),
          ''OCR_ResetCharacter'', None, False),
       (step5_click_confirm patient_host (PyInt 500) (PyInt 10) (PyInt 250), ''OCR_Confirm'', None, True)}"
    by simp
  have h: "\<forall>i. \<not> raises patient_host i" "sleep_max patient_host = 86400000"
    "trace patient_host = []"
    by (simp_all add: patient_host_def)
  have v: "as_int (PyInt 10) = Some 10" "as_int (PyInt 250) = Some 250" "(0::int) \<le> 250"
    "250 \<le> sleep_max patient_host"
    by (simp_all add: h(2))
  have fx: "fst ?x = Inr True" by (simp add: ev)
  have nom: "(\<forall>i. \<not> raises patient_host i)
          \<and> (\<exists>w. as_int (PyInt 500) = Some w \<and> 0 \<le> w \<and> w \<le> sleep_max patient_host)
          \<and> (False \<longrightarrow> 100 \<le> sleep_max patient_host)"
    using h by simp
  from steps_poll_with_retry[OF m v] obtain failed final where
    t: "trace (snd ?x) = trace patient_host @ concat (map (\<lambda>b. b @ [Sleep 250]) failed) @ final"
    and c: "(fst ?x = Inr True \<and> int (length failed) < 10
          \<and> attempt_succeeds patient_host (PyInt 500) False
               (attempt_start patient_host 250 failed (length failed))
          \<and> final = attempt_trace patient_host ''OCR_Settings'' None False (PyInt 500)
               (attempt_start patient_host 250 failed (length failed))
          \<and> (\<exists>bx w. as_int (PyInt 500) = Some w
                \<and> usable_box (reco_result patient_host
                     (length (trace patient_host)
                        + length (concat (map (\<lambda>b. b @ [Sleep 250]) failed)) + 2))
                   = Some bx
                \<and> final = [Screencap, CachedImage, Recognition ''OCR_Settings'' None,
                            Click (box_x bx + box_w bx div 2) (box_y bx + box_h bx div 2),
                            Sleep w, Screencap] @ (if False then [Sleep 100] else [])))
       \<or> (fst ?x = Inr False \<and> int (length failed) + 1 = 10
          \<and> \<not> attempt_succeeds patient_host (PyInt 500) False
                 (attempt_start patient_host 250 failed (length failed))
          \<and> final = attempt_trace patient_host ''OCR_Settings'' None False (PyInt 500)
               (attempt_start patient_host 250 failed (length failed))
          \<and> final \<noteq> [] \<and> hd final = Screencap \<and> length (filter is_reco final) \<le> 1)
       \<or> (fst ?x = Inr False \<and> (10::int) \<le> 0 \<and> failed = [] \<and> final = [])"
    and n: "(\<forall>i. \<not> raises patient_host i)
          \<and> (\<exists>w. as_int (PyInt 500) = Some w \<and> 0 \<le> w \<and> w \<le> sleep_max patient_host)
          \<and> (False \<longrightarrow> 100 \<le> sleep_max patient_host) \<longrightarrow>
        (\<forall>j<length failed.
            failed ! j = ?miss
          \<and> usable_box (reco_result patient_host (attempt_start patient_host 250 failed j + 2)) = None)
        \<and> (fst ?x = Inr False \<and> (0::int) < 10 \<longrightarrow>
             final = ?miss
           \<and> usable_box (reco_result patient_host
                (attempt_start patient_host 250 failed (length failed) + 2)) = None)"
    by blast
  from n nom have "\<forall>j<length failed. failed ! j = ?miss" by blast
  then have "\<forall>b\<in>set failed. b = ?miss"
    by (auto simp: in_set_conv_nth)
  moreover from c fx have "int (length failed) < 10" by auto
  moreover from t h(3) have "trace (snd ?x) = concat (map (\<lambda>b. b @ [Sleep 250]) failed) @ final"
    by simp
  ultimately have "\<exists>failed final.
      trace (snd ?x) = concat (map (\<lambda>b. b @ [Sleep 250]) failed) @ final
    \<and> (\<forall>b\<in>set failed. b = ?miss)
    \<and> int (length failed) < 10"
    by blast
  with ev show ?thesis by blast
qed

text \<open>
  Claim C8. With a retry count that is zero or negative, each of steps 2 to 5 returns
  \<open>False\<close> and changes nothing but the log: the trace is the same, so there is no
  recognition, click or sleep. \<open>run\<close> with such a retry count then returns
  \<open>False\<close>; the events it adds to the trace start with the ESC key press of step 1
  and contain no recognition and no click.
\<close>

theorem no_attempt_without_retries:
  assumes "as_int rt = Some n" and "n \<le> 0"
  shows "step2_click_settings h wd rt ri = (Inr False, log_step 2 h)
       \<and> step3_click_other h tp wd rt ri = (Inr False, log_step 3 h)
       \<and> step4_click_reset_character h wd rt ri = (Inr False, log_step 4 h)
       \<and> step5_click_confirm h wd rt ri = (Inr False, log_step 5 h)
       \<and> trace (log_step 2 h) = trace h \<and> trace (log_step 3 h) = trace h
       \<and> trace (log_step 4 h) = trace h \<and> trace (log_step 5 h) = trace h
       \<and> (\<forall>loads custom_action_param ps.
            parse_params loads custom_action_param = Inr ps \<and> retry_times ps = rt \<longrightarrow>
              fst (run loads h custom_action_param) = Inr False
            \<and> (\<exists>evs. trace (snd (run loads h custom_action_param)) = trace h @ ClickKey 27 # evs
                 \<and> (\<forall>e \<in> set evs. \<not> is_reco e \<and> \<not> is_click e)))"
proof -
  have s: "step2_click_settings h wd rt ri = (Inr False, log_step 2 h)"
    "step3_click_other h tp wd rt ri = (Inr False, log_step 3 h)"
    "step4_click_reset_character h wd rt ri = (Inr False, log_step 4 h)"
    "step5_click_confirm h wd rt ri = (Inr False, log_step 5 h)" for h wd tp ri
    by (simp_all add: step2_click_settings_def step3_click_other_def
          step4_click_reset_character_def step5_click_confirm_def
          click_with_retry_nonpositive[OF assms])
  have r: "fst (run loads h custom_action_param) = Inr False
       \<and> (\<exists>evs. trace (snd (run loads h custom_action_param)) = trace h @ ClickKey 27 # evs
                 \<and> (\<forall>e \<in> set evs. \<not> is_reco e \<and> \<not> is_click e))"
    if p: "parse_params loads custom_action_param = Inr ps" and rt: "retry_times ps = rt"
    for loads custom_action_param ps
  proof -
    from step1_block[of h "wait_delay ps"] obtain evs b where
      s1: "step1_press_esc h (wait_delay ps) = (Inr b, emit (ClickKey 27 # evs) (log_step 1 h))"
      and pl: "plain evs" by blast
    have "run loads h custom_action_param =
             (Inr False, if b then log_step 2 (emit (ClickKey 27 # evs) (log_step 1 h))
                         else emit (ClickKey 27 # evs) (log_step 1 h))"
      by (simp add: run_parsed[OF p] run_steps_def s1 s rt)
    then show ?thesis using pl by (auto simp: plain_def)
  qed
  show ?thesis using s r by simp
qed

theorem no_attempt_without_retries_witness:
  "step2_click_settings ready_host (PyInt 500) (PyInt 0) (PyInt 500) = (Inr False, log_step 2 ready_host)
   \<and> step5_click_confirm ready_host (PyInt 500) (PyInt 0) (PyInt 500) = (Inr False, log_step 5 ready_host)
   \<and> fst (run (\<lambda>s. Inl JSONDecodeError) ready_host (PyDict [(''retry_times'', PyInt 0)])) = Inr False"
proof -
  have p: "parse_params (\<lambda>s. Inl JSONDecodeError) (PyDict [(''retry_times'', PyInt 0)])
         = Inr \<lparr>template_path = PyStr default_template, wait_delay = PyInt 500,
                retry_times = PyInt 0, retry_interval = PyInt 500\<rparr>"
    by (simp add: parse_params_def load_params_def get_params_def dict_get_def)
  from no_attempt_without_retries[of "PyInt 0" 0 ready_host "PyInt 500" "PyInt 500" PyNone] p
  show ?thesis by simp
qed

section \<open>The action as a whole\<close>

text \<open>
  Claim C4. The code departs from the claim in the retrying steps. With a negative retry
  interval the first attempt of step 2 on a host that recognises nothing fails, the retry
  sleep raises \<open>ValueError\<close> inside the \<open>try\<close> block, the handler (lines 168 to 173)
  sleeps again, and this second \<open>ValueError\<close> leaves the method: step 2 raises instead
  of returning \<open>False\<close>. Step 1, whose handler only returns, answers \<open>False\<close> to the
  same \<open>ValueError\<close> of its own sleep. The handler of \<open>run\<close> catches what step 2
  raises, so that \<open>run\<close> still returns \<open>False\<close> on this input.
\<close>

theorem step_raises_from_handler:
  "step2_click_settings blind_host (PyInt 500) (PyInt 2) (PyInt (- 1))
     = (Inl ValueError,
        blind_host\<lparr>trace := [Screencap, CachedImage, Recognition ''OCR_Settings'' None],
                   step_log := [2]\<rparr>)
   \<and> step1_press_esc blind_host (PyInt (- 1))
     = (Inr False, blind_host\<lparr>trace := [ClickKey 27], step_log := [1]\<rparr>)
   \<and> run (\<lambda>s. Inl JSONDecodeError) blind_host
        (PyDict [(''retry_times'', PyInt 2), (''retry_interval'', PyInt (- 1))])
     = (Inr False,
        blind_host\<lparr>trace := [ClickKey 27, Sleep 500, Screencap,
                             Screencap, CachedImage, Recognition ''OCR_Settings'' None],
                   step_log := [1, 2]\<rparr>)"
  by (simp add: run_def parse_params_def load_params_def get_params_def dict_get_def
        run_steps_def eval_defs blind_host_def)

text \<open>
  Claim C1. Once the parameters are parsed, \<open>run\<close> calls step 1, 2, 3, 4 and 5 in this
  order, each on the host as the step before left it (\<open>s1\<close> to \<open>s5\<close> are the
  outcomes of these calls). It returns \<open>True\<close> exactly when
  all five return \<open>True\<close>. When a step does not return \<open>True\<close> (it returns
  \<open>False\<close> or raises), \<open>run\<close> returns \<open>False\<close> and leaves the host as that step
  left it: no later step is attempted, and the log names the steps up to the failing one
  and no other. When the parameter object cannot be parsed, \<open>run\<close> returns
  \<open>False\<close> before step 1.
\<close>

theorem run_chains_five_steps:
  assumes "s1 = step1_press_esc h (wait_delay ps)"
    and "s2 = step2_click_settings (snd s1) (wait_delay ps) (retry_times ps) (retry_interval ps)"
    and "s3 = step3_click_other (snd s2) (template_path ps) (wait_delay ps) (retry_times ps)
                (retry_interval ps)"
    and "s4 = step4_click_reset_character (snd s3) (wait_delay ps) (retry_times ps)
                (retry_interval ps)"
    and "s5 = step5_click_confirm (snd s4) (wait_delay ps) (retry_times ps) (retry_interval ps)"
  shows "(parse_params loads custom_action_param = Inr ps \<longrightarrow>
          run loads h custom_action_param =
           (if fst s1 \<noteq> Inr True then (Inr False, snd s1)
            else if fst s2 \<noteq> Inr True then (Inr False, snd s2)
            else if fst s3 \<noteq> Inr True then (Inr False, snd s3)
            else if fst s4 \<noteq> Inr True then (Inr False, snd s4)
            else if fst s5 \<noteq> Inr True then (Inr False, snd s5)
            else (Inr True, snd s5))
        \<and> step_log (snd (run loads h custom_action_param)) =
           step_log h @
           (if fst s1 \<noteq> Inr True then [1]
            else if fst s2 \<noteq> Inr True then [1, 2]
            else if fst s3 \<noteq> Inr True then [1, 2, 3]
            else if fst s4 \<noteq> Inr True then [1, 2, 3, 4]
            else [1, 2, 3, 4, 5]))
       \<and> ((\<exists>e. parse_params loads custom_action_param = Inl e) \<longrightarrow>
            run loads h custom_action_param = (Inr False, h))"
proof (intro conjI impI)
  assume p: "parse_params loads custom_action_param = Inr ps"
  show r: "run loads h custom_action_param =
           (if fst s1 \<noteq> Inr True then (Inr False, snd s1)
            else if fst s2 \<noteq> Inr True then (Inr False, snd s2)
            else if fst s3 \<noteq> Inr True then (Inr False, snd s3)
            else if fst s4 \<noteq> Inr True then (Inr False, snd s4)
            else if fst s5 \<noteq> Inr True then (Inr False, snd s5)
            else (Inr True, snd s5))"
    unfolding run_parsed[OF p] run_steps_def and_then_gate assms[symmetric]
    by (simp add: catch_fail)
  have l: "step_log (snd s1) = step_log h @ [1]" "step_log (snd s2) = step_log h @ [1, 2]"
    "step_log (snd s3) = step_log h @ [1, 2, 3]" "step_log (snd s4) = step_log h @ [1, 2, 3, 4]"
    "step_log (snd s5) = step_log h @ [1, 2, 3, 4, 5]"
    by (simp_all add: assms step_log_steps)
  show "step_log (snd (run loads h custom_action_param)) =
           step_log h @
           (if fst s1 \<noteq> Inr True then [1]
            else if fst s2 \<noteq> Inr True then [1, 2]
            else if fst s3 \<noteq> Inr True then [1, 2, 3]
            else if fst s4 \<noteq> Inr True then [1, 2, 3, 4]
            else [1, 2, 3, 4, 5])"
    unfolding r using l by simp
next
  assume "\<exists>e. parse_params loads custom_action_param = Inl e"
  then show "run loads h custom_action_param = (Inr False, h)"
    by (auto simp: run_def)
qed

theorem run_chains_five_steps_witness:
  "fst (run (\<lambda>s. Inl JSONDecodeError) ready_host (PyDict [])) = Inr True
   \<and> step_log (snd (run (\<lambda>s. Inl JSONDecodeError) ready_host (PyDict []))) = [1, 2, 3, 4, 5]
   \<and> fst (run (\<lambda>s. Inl JSONDecodeError) blind_host (PyDict [(''retry_times'', PyInt 2)])) = Inr False
   \<and> step_log (snd (run (\<lambda>s. Inl JSONDecodeError) blind_host (PyDict [(''retry_times'', PyInt 2)])))
       = [1, 2]
   \<and> run (\<lambda>s. Inl JSONDecodeError) ready_host (PyStr ''{'') = (Inr False, ready_host)"
proof -
  let ?ps = "\<lparr>template_path = PyStr default_template, wait_delay = PyInt 500,
                retry_times = PyInt 10, retry_interval = PyInt 500\<rparr>"
  let ?qs = "\<lparr>template_path = PyStr default_template, wait_delay = PyInt 500,
                retry_times = PyInt 2, retry_interval = PyInt 500\<rparr>"
  have p: "parse_params (\<lambda>s. Inl JSONDecodeError) (PyDict []) = Inr ?ps"
    by (simp add: parse_params_def load_params_def get_params_def dict_get_def)
  have q: "parse_params (\<lambda>s. Inl JSONDecodeError) (PyDict [(''retry_times'', PyInt 2)]) = Inr ?qs"
    by (simp add: parse_params_def load_params_def get_params_def dict_get_def)
  have e: "\<exists>e. parse_params (\<lambda>s. Inl JSONDecodeError) (PyStr ''{'') = Inl e"
    by (simp add: parse_params_def load_params_def)
  have a: "fst (run (\<lambda>s. Inl JSONDecodeError) ready_host (PyDict [])) = Inr True
   \<and> step_log (snd (run (\<lambda>s. Inl JSONDecodeError) ready_host (PyDict []))) = [1, 2, 3, 4, 5]"
    using p run_chains_five_steps[where h = ready_host and ps = ?ps
        and loads = "\<lambda>s. Inl JSONDecodeError" and custom_action_param = "PyDict []",
        OF refl refl refl refl refl]
    by (simp add: eval_defs ready_host_def)
  have b: "fst (run (\<lambda>s. Inl JSONDecodeError) blind_host (PyDict [(''retry_times'', PyInt 2)])) = Inr False
   \<and> step_log (snd (run (\<lambda>s. Inl JSONDecodeError) blind_host (PyDict [(''retry_times'', PyInt 2)])))
       = [1, 2]"
    using q run_chains_five_steps[where h = blind_host and ps = ?qs
        and loads = "\<lambda>s. Inl JSONDecodeError"
        and custom_action_param = "PyDict [(''retry_times'', PyInt 2)]",
        OF refl refl refl refl refl]
    by (simp add: eval_defs blind_host_def)
  have c: "run (\<lambda>s. Inl JSONDecodeError) ready_host (PyStr ''{'') = (Inr False, ready_host)"
    using e run_chains_five_steps[where h = ready_host and ps = ?ps
        and loads = "\<lambda>s. Inl JSONDecodeError" and custom_action_param = "PyStr ''{''",
        OF refl refl refl refl refl]
    by blast
  from a b c show ?thesis by simp
qed

section \<open>Parameters and the installer\<close>

text \<open>
  Claim C3. The parameter object is a dictionary, or a JSON text that \<open>json.loads\<close>
  turns into one. Parsing then succeeds; a key that is absent yields its default (the
  template path \<open>common/\<close>, the two Chinese characters of line 56, given here by the six
  bytes E5 85 B6 E4 BB 96 of their UTF-8 encoding, and \<open>.png\<close>; wait delay 500; retry
  count 10; retry interval 500), a key that is present yields its value, and these four
  values are the ones the five steps run with.
\<close>

theorem parse_params_defaults:
  assumes "custom_action_param = PyDict kvs \<or>
           (custom_action_param = PyStr s \<and> loads s = Inr (PyDict kvs))"
  shows "\<exists>ps. parse_params loads custom_action_param = Inr ps
     \<and> (map_of kvs ''template_path'' = None \<longrightarrow>
          template_path ps =
            PyStr (''common/'' @ [CHR 0xE5, CHR 0x85, CHR 0xB6, CHR 0xE4, CHR 0xBB, CHR 0x96]
                   @ ''.png''))
     \<and> (map_of kvs ''wait_delay'' = None \<longrightarrow> wait_delay ps = PyInt 500)
     \<and> (map_of kvs ''retry_times'' = None \<longrightarrow> retry_times ps = PyInt 10)
     \<and> (map_of kvs ''retry_interval'' = None \<longrightarrow> retry_interval ps = PyInt 500)
     \<and> (\<forall>v. map_of kvs ''template_path'' = Some v \<longrightarrow> template_path ps = v)
     \<and> (\<forall>v. map_of kvs ''wait_delay'' = Some v \<longrightarrow> wait_delay ps = v)
     \<and> (\<forall>v. map_of kvs ''retry_times'' = Some v \<longrightarrow> retry_times ps = v)
     \<and> (\<forall>v. map_of kvs ''retry_interval'' = Some v \<longrightarrow> retry_interval ps = v)
     \<and> run loads h custom_action_param =
         (case run_steps h ps of (Inl e, h') \<Rightarrow> (Inr False, h') | (Inr ok, h') \<Rightarrow> (Inr ok, h'))"
proof -
  from assms have "load_params loads custom_action_param = Inr (PyDict kvs)"
    by (auto simp: load_params_def)
  then have p: "parse_params loads custom_action_param = get_params (PyDict kvs)"
    by (simp add: parse_params_def)
  show ?thesis
    unfolding p using run_parsed[of loads custom_action_param _ h, unfolded p]
    by (simp add: get_params_def dict_get_def default_template_def)
qed

theorem parse_params_defaults_witness:
  "(\<exists>ps. parse_params (\<lambda>s. if s = ''{}'' then Inr (PyDict []) else Inl JSONDecodeError)
            (PyStr ''{}'') = Inr ps
       \<and> template_path ps =
           PyStr (''common/'' @ [CHR 0xE5, CHR 0x85, CHR 0xB6, CHR 0xE4, CHR 0xBB, CHR 0x96]
                  @ ''.png'')
       \<and> wait_delay ps = PyInt 500
       \<and> retry_times ps = PyInt 10 \<and> retry_interval ps = PyInt 500)
   \<and> (\<exists>ps. parse_params (\<lambda>s. Inl JSONDecodeError) (PyDict [(''retry_times'', PyInt 3)]) = Inr ps
       \<and> template_path ps =
           PyStr (''common/'' @ [CHR 0xE5, CHR 0x85, CHR 0xB6, CHR 0xE4, CHR 0xBB, CHR 0x96]
                  @ ''.png'')
       \<and> wait_delay ps = PyInt 500
       \<and> retry_times ps = PyInt 3 \<and> retry_interval ps = PyInt 500)"
proof -
  let ?h = "\<lparr>raises = \<lambda>_. False, reco_result = \<lambda>_. None, sleep_max = 1000, trace = [],
             step_log = []\<rparr>"
  let ?loads = "\<lambda>s. if s = ''{}'' then Inr (PyDict []) else Inl JSONDecodeError"
  let ?t = "PyStr (''common/'' @ [CHR 0xE5, CHR 0x85, CHR 0xB6, CHR 0xE4, CHR 0xBB, CHR 0x96]
                   @ ''.png'')"
  have a: "PyStr ''{}'' = PyDict [] \<or> (PyStr ''{}'' = PyStr ''{}'' \<and> ?loads ''{}'' = Inr (PyDict []))"
    by simp
  have b: "PyDict [(''retry_times'', PyInt 3)] = PyDict [(''retry_times'', PyInt 3)] \<or>
       (PyDict [(''retry_times'', PyInt 3)] = PyStr ''x'' \<and>
        (\<lambda>s. Inl JSONDecodeError) ''x'' = Inr (PyDict [(''retry_times'', PyInt 3)]))"
    by simp
  from a parse_params_defaults[of "PyStr ''{}''" "[]" "''{}''" ?loads ?h]
  have "\<exists>ps. parse_params ?loads (PyStr ''{}'') = Inr ps
       \<and> template_path ps = ?t \<and> wait_delay ps = PyInt 500
       \<and> retry_times ps = PyInt 10 \<and> retry_interval ps = PyInt 500"
    by auto
  moreover from b parse_params_defaults[of "PyDict [(''retry_times'', PyInt 3)]" "[(''retry_times'', PyInt 3)]" "''x''" "\<lambda>s. Inl JSONDecodeError" ?h]
  have "\<exists>ps. parse_params (\<lambda>s. Inl JSONDecodeError) (PyDict [(''retry_times'', PyInt 3)]) = Inr ps
       \<and> template_path ps = ?t \<and> wait_delay ps = PyInt 500
       \<and> retry_times ps = PyInt 3 \<and> retry_interval ps = PyInt 500"
    by auto
  ultimately show ?thesis by blast
qed

text \<open>
  Claim C10. A parameter object that is neither a string nor a dictionary (\<open>None\<close>,
  a number, a list) is read as the empty dictionary: parsing succeeds with the four
  defaults (template path as in claim C3, wait delay 500, retry count 10, retry interval
  500), \<open>run\<close> is the five steps run with these four values, a step that raises counting
  as a failure, and so the action runs exactly as it does on the empty dictionary and as
  it does with the four defaults spelled out.
\<close>

theorem other_param_means_defaults:
  assumes "\<forall>s. custom_action_param \<noteq> PyStr s" and "\<forall>kvs. custom_action_param \<noteq> PyDict kvs"
  shows "parse_params loads custom_action_param
           = Inr \<lparr>template_path =
                    PyStr (''common/'' @ [CHR 0xE5, CHR 0x85, CHR 0xB6, CHR 0xE4, CHR 0xBB, CHR 0x96]
                           @ ''.png''),
                  wait_delay = PyInt 500, retry_times = PyInt 10, retry_interval = PyInt 500\<rparr>
       \<and> run loads h custom_action_param =
           (case run_steps h
                   \<lparr>template_path =
                      PyStr (''common/'' @ [CHR 0xE5, CHR 0x85, CHR 0xB6, CHR 0xE4, CHR 0xBB, CHR 0x96]
                             @ ''.png''),
                    wait_delay = PyInt 500, retry_times = PyInt 10, retry_interval = PyInt 500\<rparr>
            of (Inl e, h') \<Rightarrow> (Inr False, h') | (Inr ok, h') \<Rightarrow> (Inr ok, h'))
       \<and> run loads h custom_action_param = run loads h (PyDict [])
       \<and> run loads h custom_action_param =
           run loads h
             (PyDict [(''template_path'',
                        PyStr (''common/'' @ [CHR 0xE5, CHR 0x85, CHR 0xB6, CHR 0xE4, CHR 0xBB, CHR 0x96]
                               @ ''.png'')),
                      (''wait_delay'', PyInt 500),
                      (''retry_times'', PyInt 10), (''retry_interval'', PyInt 500)])"
  using assms
  by (cases custom_action_param)
     (simp_all add: run_def parse_params_def load_params_def get_params_def dict_get_def
        default_template_def)

theorem other_param_means_defaults_witness:
  "parse_params (\<lambda>s. Inl JSONDecodeError) PyNone
     = Inr \<lparr>template_path =
              PyStr (''common/'' @ [CHR 0xE5, CHR 0x85, CHR 0xB6, CHR 0xE4, CHR 0xBB, CHR 0x96]
                     @ ''.png''),
            wait_delay = PyInt 500, retry_times = PyInt 10, retry_interval = PyInt 500\<rparr>
   \<and> parse_params (\<lambda>s. Inl JSONDecodeError) (PyInt 7)
     = Inr \<lparr>template_path =
              PyStr (''common/'' @ [CHR 0xE5, CHR 0x85, CHR 0xB6, CHR 0xE4, CHR 0xBB, CHR 0x96]
                     @ ''.png''),
            wait_delay = PyInt 500, retry_times = PyInt 10, retry_interval = PyInt 500\<rparr>
   \<and> fst (run (\<lambda>s. Inl JSONDecodeError) ready_host PyNone) = Inr True
   \<and> step_log (snd (run (\<lambda>s. Inl JSONDecodeError) ready_host PyNone)) = [1, 2, 3, 4, 5]
   \<and> length (filter is_reco (trace (snd (run (\<lambda>s. Inl JSONDecodeError) blind_host (PyList []))))) = 10"
proof -
  have a: "\<forall>s. PyNone \<noteq> PyStr s" "\<forall>kvs. PyNone \<noteq> PyDict kvs"
    and b: "\<forall>s. PyInt 7 \<noteq> PyStr s" "\<forall>kvs. PyInt 7 \<noteq> PyDict kvs"
    and c: "\<forall>s. PyList [] \<noteq> PyStr s" "\<forall>kvs. PyList [] \<noteq> PyDict kvs"
    by simp_all
  have 1: "fst (run (\<lambda>s. Inl JSONDecodeError) ready_host PyNone) = Inr True
   \<and> step_log (snd (run (\<lambda>s. Inl JSONDecodeError) ready_host PyNone)) = [1, 2, 3, 4, 5]"
    using other_param_means_defaults[OF a, of "\<lambda>s. Inl JSONDecodeError" ready_host]
    by (simp add: run_steps_def eval_defs ready_host_def default_template_def)
  have 2: "length (filter is_reco (trace (snd (run (\<lambda>s. Inl JSONDecodeError) blind_host (PyList []))))) = 10"
    using other_param_means_defaults[OF c, of "\<lambda>s. Inl JSONDecodeError" blind_host]
    by (simp add: run_steps_def eval_defs blind_host_def default_template_def)
  from 1 2 other_param_means_defaults[OF a, of "\<lambda>s. Inl JSONDecodeError" ready_host]
    other_param_means_defaults[OF b, of "\<lambda>s. Inl JSONDecodeError" ready_host]
  show ?thesis by simp
qed


lemma update_filter_other:
  "filter (\<lambda>p. fst p \<noteq> k) (AList.update k v al) = filter (\<lambda>p. fst p \<noteq> k) al"
  by (induction al) auto

text \<open>
  Claim C7 fails as stated for an empty version argument: the installer called with the
  argument \<open>""\<close> writes the version "v0.0.1", not the argument.
\<close>

theorem empty_version_argument:
  "install_resource [''install.py'', '''']
     \<lparr>resources_ok = True,
      assets_interface = Some (PyDict [(''name'', PyStr ''MaaDuet''), (''version'', PyStr ''v1.0.0'')]),
      install_interface = None\<rparr>
   = (Inr (),
     \<lparr>resources_ok = True,
      assets_interface = Some (PyDict [(''name'', PyStr ''MaaDuet''), (''version'', PyStr ''v1.0.0'')]),
      install_interface = Some (PyDict [(''name'', PyStr ''MaaDuet''), (''version'', PyStr ''v0.0.1'')])\<rparr>)
   \<and> [''install.py'', ''''] ! 1 \<noteq> ''v0.0.1''"
  by (simp add: install_resource_def version_def)

text \<open>
  Claim C7, amended. When the preparation succeeds and the manifest is a JSON object,
  \<open>install_resource\<close> writes the manifest back with its "version" field equal to
  the first argument if there is one and it is not empty, and to "v0.0.1" if there is no
  argument or it is empty; every other field keeps its value and its place, and nothing
  else of the distribution changes.
\<close>

theorem install_resource_version:
  assumes "resources_ok d" and "assets_interface d = Some (PyDict kvs)"
  shows "\<exists>kvs'. install_resource argv d = (Inr (), d\<lparr>install_interface := Some (PyDict kvs')\<rparr>)
     \<and> (1 < length argv \<and> argv ! 1 \<noteq> '''' \<longrightarrow> map_of kvs' ''version'' = Some (PyStr (argv ! 1)))
     \<and> (length argv \<le> 1 \<or> argv ! 1 = '''' \<longrightarrow> map_of kvs' ''version'' = Some (PyStr ''v0.0.1''))
     \<and> (\<forall>k. k \<noteq> ''version'' \<longrightarrow> map_of kvs' k = map_of kvs k)
     \<and> filter (\<lambda>p. fst p \<noteq> ''version'') kvs' = filter (\<lambda>p. fst p \<noteq> ''version'') kvs"
  using assms
  by (auto simp: install_resource_def version_def update_conv' update_filter_other)

theorem install_resource_version_witness:
  "install_resource [''install.py'', ''v2.3.0'']
     \<lparr>resources_ok = True,
      assets_interface = Some (PyDict [(''name'', PyStr ''MaaDuet''), (''version'', PyStr ''v1.0.0'')]),
      install_interface = None\<rparr>
   = (Inr (),
     \<lparr>resources_ok = True,
      assets_interface = Some (PyDict [(''name'', PyStr ''MaaDuet''), (''version'', PyStr ''v1.0.0'')]),
      install_interface = Some (PyDict [(''name'', PyStr ''MaaDuet''), (''version'', PyStr ''v2.3.0'')])\<rparr>)
   \<and> fst (install_resource [''install.py'']
     \<lparr>resources_ok = True,
      assets_interface = Some (PyDict [(''name'', PyStr ''MaaDuet'')]),
      install_interface = None\<rparr>) = Inr ()"
  using install_resource_version[of
     "\<lparr>resources_ok = True,
      assets_interface = Some (PyDict [(''name'', PyStr ''MaaDuet''), (''version'', PyStr ''v1.0.0'')]),
      install_interface = None\<rparr>" "[(''name'', PyStr ''MaaDuet''), (''version'', PyStr ''v1.0.0'')]"
      "[''install.py'', ''v2.3.0'']"]
     install_resource_version[of
     "\<lparr>resources_ok = True,
      assets_interface = Some (PyDict [(''name'', PyStr ''MaaDuet'')]),
      install_interface = None\<rparr>" "[(''name'', PyStr ''MaaDuet'')]"
      "[''install.py'']"]
  by (simp add: install_resource_def version_def)

end
